theory Spec2Isabelle
  imports Main
begin

section \<open>Graph model\<close>

text \<open>
  The pass \<^verbatim>\<open>grad_acc_rewrite.cc\<close> mutates an HLO instruction graph through pointers.
  The embedding keeps the instructions of a computation in an arena: a pointer is the
  index of a slot, \<^verbatim>\<open>AddInstruction\<close> appends a slot, \<^verbatim>\<open>RemoveInstruction\<close> empties one.
  Every abort of the C++ (a failed \<^verbatim>\<open>CHECK\<close>, an access outside an operand vector, a
  dereference of a removed instruction, \<^verbatim>\<open>optional::value()\<close> on an empty optional) is a
  value of type \<open>fatal\<close>.
\<close>

datatype PrimitiveType = PRED | S32 | S64 | U32 | F16 | BF16 | F32 | F64 | TUPLE

datatype Shape = ArrayShape PrimitiveType "nat list" | TupleShape "Shape list"

datatype HloOpcode =
    kAdd | kAllReduce | kBitcast | kConstant | kConvert | kCopy | kMultiply
  | kParameter | kReshape | kTranspose | kTuple | kOtherOpcode

datatype Combiner = BinaryAdd PrimitiveType | OtherCombiner nat

record HloInstruction =
  opcode :: HloOpcode
  shape :: Shape
  operands :: "nat list"
  metadata_op_name :: string
  channel_id :: "int option"
  replica_groups :: "nat list list"
  constrain_layout :: bool
  use_global_device_ids :: bool
  to_apply :: "Combiner option"

record HloComputation =
  instructions :: "HloInstruction option list"
  root_instruction :: nat
  param_instructions :: "nat list"

datatype fatal =
    CheckFailure | OutOfRange | DanglingPointer | BadOptionalAccess | NoReturn

text \<open>Dereferencing an instruction pointer: a removed or never allocated slot gives \<open>None\<close>.\<close>

definition deref :: "HloComputation \<Rightarrow> nat \<Rightarrow> HloInstruction option" where
  "deref c n = (if n < length (instructions c) then instructions c ! n else None)"

subsection \<open>Shapes\<close>

fun element_type :: "Shape \<Rightarrow> PrimitiveType" where
  "element_type (ArrayShape t ds) = t"
| "element_type (TupleShape ss) = TUPLE"

fun IsTuple :: "Shape \<Rightarrow> bool" where
  "IsTuple (TupleShape ss) = True"
| "IsTuple (ArrayShape t ds) = False"

fun IsArray :: "Shape \<Rightarrow> bool" where
  "IsArray (ArrayShape t ds) = True"
| "IsArray (TupleShape ss) = False"

fun tuple_shapes :: "Shape \<Rightarrow> Shape list" where
  "tuple_shapes (TupleShape ss) = ss"
| "tuple_shapes (ArrayShape t ds) = []"

text \<open>
  Modelled from the spec: \<^verbatim>\<open>ShapeUtil::SameElementType\<close>, \<^verbatim>\<open>ShapeUtil::ChangeElementType\<close>
  and \<^verbatim>\<open>ShapeUtil::Compatible\<close> are called by the pass and are not among the sources.
  The spec's data model gives their meaning: type compatibility is equality of element
  types; structural compatibility is equal rank and dimension sizes once the tuple
  structure is unwrapped; the bridge does nothing only when both hold.
\<close>

definition SameElementType :: "Shape \<Rightarrow> Shape \<Rightarrow> bool" where
  "SameElementType a b = (element_type a = element_type b)"

fun ChangeElementType :: "Shape \<Rightarrow> PrimitiveType \<Rightarrow> Shape" where
  "ChangeElementType (ArrayShape t ds) ty = ArrayShape ty ds"
| "ChangeElementType (TupleShape ss) ty = TupleShape (map (\<lambda>s. ChangeElementType s ty) ss)"

fun Compatible :: "Shape \<Rightarrow> Shape \<Rightarrow> bool"
  and CompatibleList :: "Shape list \<Rightarrow> Shape list \<Rightarrow> bool" where
  "Compatible (ArrayShape t ds) (ArrayShape t' ds') = (t = t' \<and> ds = ds')"
| "Compatible (TupleShape ss) (TupleShape ts) = CompatibleList ss ts"
| "Compatible (ArrayShape t ds) (TupleShape ts) = False"
| "Compatible (TupleShape ss) (ArrayShape t' ds') = False"
| "CompatibleList [] [] = True"
| "CompatibleList (s # ss) (t # ts) = (Compatible s t \<and> CompatibleList ss ts)"
| "CompatibleList [] (t # ts) = False"
| "CompatibleList (s # ss) [] = False"

subsection \<open>Graph primitives\<close>

text \<open>
  Modelled from the spec: the methods of \<^verbatim>\<open>HloInstruction\<close> and \<^verbatim>\<open>HloComputation\<close> that the
  pass calls (\<^verbatim>\<open>users\<close>, \<^verbatim>\<open>AddInstruction\<close>, \<^verbatim>\<open>CreateConvert\<close>, \<^verbatim>\<open>CreateReshape\<close>,
  \<^verbatim>\<open>CreateAllReduce\<close>, \<^verbatim>\<open>ReplaceOperandWith\<close>, \<^verbatim>\<open>ReplaceAllUsesWith\<close>,
  \<^verbatim>\<open>set_metadata_op_name\<close>, \<^verbatim>\<open>set_metadata\<close>, \<^verbatim>\<open>RemoveInstruction\<close>) are not among the
  sources. The spec's data model fixes them: the user set of a node is exactly the set of
  nodes whose operand list contains it; rewiring replaces an entry of an operand list;
  redirecting all uses replaces the node in every operand list; a node is removed only
  when no node references it and it is not the root (checked defensively, the caller
  ignoring the outcome).
\<close>

definition uses :: "HloComputation \<Rightarrow> nat \<Rightarrow> nat \<Rightarrow> bool" where
  "uses c n u = (case deref c u of None \<Rightarrow> False | Some ins \<Rightarrow> n \<in> set (operands ins))"

definition users :: "HloComputation \<Rightarrow> nat \<Rightarrow> nat list" where
  "users c n = filter (uses c n) [0..<length (instructions c)]"

definition AddInstruction :: "HloComputation \<Rightarrow> HloInstruction \<Rightarrow> HloComputation \<times> nat" where
  "AddInstruction c ins =
     (c\<lparr>instructions := instructions c @ [Some ins]\<rparr>, length (instructions c))"

definition new_instruction :: "HloOpcode \<Rightarrow> Shape \<Rightarrow> nat list \<Rightarrow> HloInstruction" where
  "new_instruction oc sh ops =
     \<lparr>opcode = oc, shape = sh, operands = ops, metadata_op_name = [],
      channel_id = None, replica_groups = [], constrain_layout = False,
      use_global_device_ids = False, to_apply = None\<rparr>"

definition CreateConvert :: "Shape \<Rightarrow> nat \<Rightarrow> HloInstruction" where
  "CreateConvert sh operand = new_instruction kConvert sh [operand]"

definition CreateReshape :: "Shape \<Rightarrow> nat \<Rightarrow> HloInstruction" where
  "CreateReshape sh operand = new_instruction kReshape sh [operand]"

definition CreateAllReduce ::
  "Shape \<Rightarrow> nat list \<Rightarrow> Combiner \<Rightarrow> nat list list \<Rightarrow> bool \<Rightarrow> int option \<Rightarrow> bool
     \<Rightarrow> HloInstruction" where
  "CreateAllReduce sh ops reduce groups constrain chan global_ids =
     \<lparr>opcode = kAllReduce, shape = sh, operands = ops, metadata_op_name = [],
      channel_id = chan, replica_groups = groups, constrain_layout = constrain,
      use_global_device_ids = global_ids, to_apply = Some reduce\<rparr>"

definition update_instruction ::
  "HloComputation \<Rightarrow> nat \<Rightarrow> (HloInstruction \<Rightarrow> HloInstruction) \<Rightarrow> HloComputation" where
  "update_instruction c n f =
     (case deref c n of
        None \<Rightarrow> c
      | Some ins \<Rightarrow> c\<lparr>instructions := (instructions c)[n := Some (f ins)]\<rparr>)"

definition ReplaceOperandWith :: "HloComputation \<Rightarrow> nat \<Rightarrow> nat \<Rightarrow> nat \<Rightarrow> HloComputation" where
  "ReplaceOperandWith c user i new_operand =
     update_instruction c user (\<lambda>u. u\<lparr>operands := (operands u)[i := new_operand]\<rparr>)"

definition set_metadata_op_name :: "HloComputation \<Rightarrow> nat \<Rightarrow> string \<Rightarrow> HloComputation" where
  "set_metadata_op_name c n s = update_instruction c n (\<lambda>u. u\<lparr>metadata_op_name := s\<rparr>)"

definition redirect :: "nat \<Rightarrow> nat \<Rightarrow> HloInstruction \<Rightarrow> HloInstruction" where
  "redirect old new u = u\<lparr>operands := map (\<lambda>x. if x = old then new else x) (operands u)\<rparr>"

definition ReplaceAllUsesWith :: "HloComputation \<Rightarrow> nat \<Rightarrow> nat \<Rightarrow> HloComputation" where
  "ReplaceAllUsesWith c old new =
     c\<lparr>instructions := map (map_option (redirect old new)) (instructions c)\<rparr>"

definition RemoveInstruction :: "HloComputation \<Rightarrow> nat \<Rightarrow> HloComputation" where
  "RemoveInstruction c n =
     (if n \<noteq> root_instruction c \<and> users c n = []
      then c\<lparr>instructions := (instructions c)[n := None]\<rparr>
      else c)"

text \<open>
  Modelled from the spec: the tag constants of \<^verbatim>\<open>grad_acc_rewrite.h\<close> are not among the
  sources; the spec names the tags "elidable" and "relocated-pending-removal".
\<close>

definition kSkippableAllReduce :: string where
  "kSkippableAllReduce = ''grad_acc_skippable_all_reduce''"

definition kDelayedAllReduce :: string where
  "kDelayedAllReduce = ''grad_acc_delayed_all_reduce''"

section \<open>Chain matcher\<close>

text \<open>
  \<^verbatim>\<open>GetAllReduce\<close> recurses along operand pointers and does not return on a cyclic
  structure: the outer \<open>None\<close> is "no return". \<open>Some (Inr None)\<close> is the null pointer,
  \<open>Some (Inr (Some n))\<close> the collective found. \<^verbatim>\<open>mutable_operand(k)\<close> outside the operand
  vector, or on a removed instruction, is fatal. For a multiply the recursion into
  operand 0 runs before operand 1 is read.
\<close>

definition pass_through :: "HloOpcode \<Rightarrow> bool" where
  "pass_through oc =
     (oc = kConvert \<or> oc = kReshape \<or> oc = kCopy \<or> oc = kBitcast \<or> oc = kTranspose)"

definition one_side :: "nat option \<Rightarrow> nat option \<Rightarrow> nat option" where
  "one_side lhs rhs =
     (if lhs \<noteq> None \<and> rhs = None then lhs
      else if lhs = None \<and> rhs \<noteq> None then rhs
      else None)"

partial_function (option) GetAllReduce ::
  "HloComputation \<Rightarrow> nat \<Rightarrow> (fatal + nat option) option" where
  "GetAllReduce c src =
     (case deref c src of
        None \<Rightarrow> Some (Inl DanglingPointer)
      | Some ins \<Rightarrow>
          if opcode ins = kAllReduce then Some (Inr (Some src))
          else if pass_through (opcode ins) then
            (case operands ins of
               [] \<Rightarrow> Some (Inl OutOfRange)
             | x # xs \<Rightarrow> GetAllReduce c x)
          else if opcode ins = kMultiply then
            (case operands ins of
               [] \<Rightarrow> Some (Inl OutOfRange)
             | x # rest \<Rightarrow>
                 Option.bind (GetAllReduce c x) (\<lambda>l.
                   case l of
                     Inl e \<Rightarrow> Some (Inl e)
                   | Inr lhs \<Rightarrow>
                       (case rest of
                          [] \<Rightarrow> Some (Inl OutOfRange)
                        | y # zs \<Rightarrow>
                            Option.bind (GetAllReduce c y) (\<lambda>r.
                              case r of
                                Inl e \<Rightarrow> Some (Inl e)
                              | Inr rhs \<Rightarrow> Some (Inr (one_side lhs rhs))))))
          else Some (Inr None))"

declare GetAllReduce.simps [code]

section \<open>Shape/type bridge\<close>

definition MaybeConvert :: "HloComputation \<Rightarrow> nat \<Rightarrow> Shape \<Rightarrow> fatal + HloComputation \<times> nat" where
  "MaybeConvert c src dst_shape =
     (case deref c src of
        None \<Rightarrow> Inl DanglingPointer
      | Some s \<Rightarrow>
          if SameElementType (shape s) dst_shape then Inr (c, src)
          else Inr (AddInstruction c
                 (CreateConvert (ChangeElementType (shape s) (element_type dst_shape)) src)))"

definition MaybeReshapeConvert ::
  "HloComputation \<Rightarrow> nat \<Rightarrow> Shape \<Rightarrow> fatal + HloComputation \<times> nat" where
  "MaybeReshapeConvert c src dst_shape =
     (case deref c src of
        None \<Rightarrow> Inl DanglingPointer
      | Some s \<Rightarrow>
          if Compatible (shape s) dst_shape then Inr (c, src)
          else
            (case MaybeConvert c src dst_shape of
               Inl e \<Rightarrow> Inl e
             | Inr (c1, v) \<Rightarrow> Inr (AddInstruction c1 (CreateReshape dst_shape v))))"

fun MaybeReshapeConvertList ::
  "HloComputation \<Rightarrow> nat list \<Rightarrow> Shape list \<Rightarrow> fatal + HloComputation \<times> nat list" where
  "MaybeReshapeConvertList c [] [] = Inr (c, [])"
| "MaybeReshapeConvertList c (x # xs) (s # ss) =
     (case MaybeReshapeConvert c x s of
        Inl e \<Rightarrow> Inl e
      | Inr (c1, r) \<Rightarrow>
          (case MaybeReshapeConvertList c1 xs ss of
             Inl e \<Rightarrow> Inl e
           | Inr (c2, rs) \<Rightarrow> Inr (c2, r # rs)))"
| "MaybeReshapeConvertList c [] (s # ss) = Inl CheckFailure"
| "MaybeReshapeConvertList c (x # xs) [] = Inl CheckFailure"

definition MaybeReshapeConvertTuple ::
  "HloComputation \<Rightarrow> nat list \<Rightarrow> Shape \<Rightarrow> fatal + HloComputation \<times> nat list" where
  "MaybeReshapeConvertTuple c src dst_shape =
     (if IsTuple dst_shape then
        (if length (tuple_shapes dst_shape) = length src
         then MaybeReshapeConvertList c src (tuple_shapes dst_shape)
         else Inl CheckFailure)
      else
        (case src of
           [x] \<Rightarrow>
             (if IsArray dst_shape then
                (case MaybeReshapeConvert c x dst_shape of
                   Inl e \<Rightarrow> Inl e
                 | Inr (c1, r) \<Rightarrow> Inr (c1, [r]))
              else Inl CheckFailure)
         | _ \<Rightarrow> Inl CheckFailure))"

section \<open>Single-unit rewrite: \<^verbatim>\<open>GradAccRewrite::Run\<close>\<close>

text \<open>
  \<^verbatim>\<open>ins->mutable_operand(k)\<close>: the vector is read without a range check in the pass, so an
  index outside it is fatal. An index taken from the configuration is a signed 64-bit
  value converted to \<^verbatim>\<open>size_t\<close>: a negative one is far outside every vector.
\<close>

definition mutable_operand :: "HloComputation \<Rightarrow> nat \<Rightarrow> nat \<Rightarrow> fatal + nat" where
  "mutable_operand c n k =
     (case deref c n of
        None \<Rightarrow> Inl DanglingPointer
      | Some ins \<Rightarrow> if k < length (operands ins) then Inr (operands ins ! k) else Inl OutOfRange)"

definition mutable_operand_at :: "HloComputation \<Rightarrow> nat \<Rightarrow> int \<Rightarrow> fatal + nat" where
  "mutable_operand_at c n i = (if i < 0 then Inl OutOfRange else mutable_operand c n (nat i))"

text \<open>
  Lines 100-108: the single user of the collective is rewired, operand position by
  operand position, to the collective's own operand, bridged to the collective's shape.
  The operand count of the user does not change in the loop, so the positions are
  \<open>[0..<operand_count]\<close>.
\<close>

fun detach_loop :: "nat list \<Rightarrow> HloComputation \<Rightarrow> nat \<Rightarrow> nat \<Rightarrow> fatal + HloComputation" where
  "detach_loop [] c allreduce_user allreduce_ins = Inr c"
| "detach_loop (i # is) c allreduce_user allreduce_ins =
     (case mutable_operand c allreduce_user i of
        Inl e \<Rightarrow> Inl e
      | Inr x \<Rightarrow>
          if x = allreduce_ins then
            (case mutable_operand c allreduce_ins 0 of
               Inl e \<Rightarrow> Inl e
             | Inr src \<Rightarrow>
                 (case deref c x of
                    None \<Rightarrow> Inl DanglingPointer
                  | Some xi \<Rightarrow>
                      (case MaybeReshapeConvert c src (shape xi) of
                         Inl e \<Rightarrow> Inl e
                       | Inr (c1, r) \<Rightarrow>
                           detach_loop is (ReplaceOperandWith c1 allreduce_user i r)
                             allreduce_user allreduce_ins)))
          else detach_loop is c allreduce_user allreduce_ins)"

definition detach :: "HloComputation \<Rightarrow> nat \<Rightarrow> fatal + HloComputation" where
  "detach c allreduce_ins =
     (case users c allreduce_ins of
        [] \<Rightarrow> Inl OutOfRange
      | allreduce_user # rest \<Rightarrow>
          (case deref c allreduce_user of
             None \<Rightarrow> Inl DanglingPointer
           | Some u \<Rightarrow>
               detach_loop [0..<length (operands u)] c allreduce_user allreduce_ins))"

text \<open>
  Lines 111-115: the collective takes the Add (bridged to the collective's shape) as its
  operand 0, output position \<open>i\<close> takes the collective (bridged to the Add's shape), and
  the collective is tagged. \<^verbatim>\<open>output_tuple\<close> is the root read before the loop; no step
  changes which instruction is the root, so it is read from the computation here.
\<close>

definition reinsert :: "HloComputation \<Rightarrow> nat \<Rightarrow> nat \<Rightarrow> nat \<Rightarrow> fatal + HloComputation" where
  "reinsert c i add_ins allreduce_ins =
     (case deref c allreduce_ins of
        None \<Rightarrow> Inl DanglingPointer
      | Some ar \<Rightarrow>
          (case MaybeReshapeConvert c add_ins (shape ar) of
             Inl e \<Rightarrow> Inl e
           | Inr (c1, v) \<Rightarrow>
               (case deref c1 add_ins of
                  None \<Rightarrow> Inl DanglingPointer
                | Some ad \<Rightarrow>
                    (case MaybeReshapeConvert (ReplaceOperandWith c1 allreduce_ins 0 v)
                            allreduce_ins (shape ad) of
                       Inl e \<Rightarrow> Inl e
                     | Inr (c2, r) \<Rightarrow>
                         Inr (set_metadata_op_name
                                (ReplaceOperandWith c2 (root_instruction c2) i r)
                                allreduce_ins kSkippableAllReduce)))))"

text \<open>
  Lines 117-133: when the element types of the collective and the Add differ, a new
  collective with the Add's shape is built from the old one's attributes, every use of
  the old one is redirected to it (bridged), and the old one is scheduled for removal.
\<close>

definition fix_type_mismatch ::
  "HloComputation \<Rightarrow> nat \<Rightarrow> nat \<Rightarrow> nat list \<Rightarrow> fatal + HloComputation \<times> nat list" where
  "fix_type_mismatch c add_ins allreduce_ins to_remove =
     (case deref c allreduce_ins of
        None \<Rightarrow> Inl DanglingPointer
      | Some old_allreduce \<Rightarrow>
          (case deref c add_ins of
             None \<Rightarrow> Inl DanglingPointer
           | Some ad \<Rightarrow>
               if SameElementType (shape old_allreduce) (shape ad) then Inr (c, to_remove)
               else
                 (case MaybeReshapeConvertTuple c (operands old_allreduce) (shape ad) of
                    Inl e \<Rightarrow> Inl e
                  | Inr (c1, ops) \<Rightarrow>
                      (case AddInstruction c1
                              ((CreateAllReduce (shape ad) ops
                                  (BinaryAdd (element_type (shape ad)))
                                  (replica_groups old_allreduce)
                                  (constrain_layout old_allreduce)
                                  (channel_id old_allreduce)
                                  (use_global_device_ids old_allreduce))
                                 \<lparr>metadata_op_name := metadata_op_name old_allreduce\<rparr>) of
                         (c2, new_allreduce) \<Rightarrow>
                           (case MaybeReshapeConvert c2 new_allreduce (shape old_allreduce) of
                              Inl e \<Rightarrow> Inl e
                            | Inr (c3, r) \<Rightarrow>
                                Inr (ReplaceAllUsesWith c3 allreduce_ins r,
                                     to_remove @ [allreduce_ins]))))))"

text \<open>
  Lines 87-98: the pattern test of one requested index. \<open>Inr None\<close> is \<^verbatim>\<open>continue\<close>;
  \<open>Inr (Some (add_ins, allreduce_ins))\<close> is a match.
\<close>

definition match_index :: "HloComputation \<Rightarrow> int \<Rightarrow> fatal + (nat \<times> nat) option" where
  "match_index c i =
     (case mutable_operand_at c (root_instruction c) i of
        Inl e \<Rightarrow> Inl e
      | Inr add_ins \<Rightarrow>
          (case deref c add_ins of
             None \<Rightarrow> Inl DanglingPointer
           | Some ad \<Rightarrow>
               if opcode ad \<noteq> kAdd then Inr None
               else
                 (case mutable_operand c add_ins 1 of
                    Inl e \<Rightarrow> Inl e
                  | Inr x \<Rightarrow>
                      (case GetAllReduce c x of
                         None \<Rightarrow> Inl NoReturn
                       | Some (Inl e) \<Rightarrow> Inl e
                       | Some (Inr None) \<Rightarrow> Inr None
                       | Some (Inr (Some allreduce_ins)) \<Rightarrow>
                           if length (users c allreduce_ins) \<noteq> 1 then Inr None
                           else
                             (case deref c allreduce_ins of
                                None \<Rightarrow> Inl DanglingPointer
                              | Some ar \<Rightarrow>
                                  if length (operands ar) = 1
                                  then Inr (Some (add_ins, allreduce_ins))
                                  else Inl CheckFailure)))))"

definition rewrite_index ::
  "int \<Rightarrow> HloComputation \<times> nat list \<Rightarrow> fatal + HloComputation \<times> nat list" where
  "rewrite_index i st =
     (case match_index (fst st) i of
        Inl e \<Rightarrow> Inl e
      | Inr None \<Rightarrow> Inr st
      | Inr (Some (add_ins, allreduce_ins)) \<Rightarrow>
          (case detach (fst st) allreduce_ins of
             Inl e \<Rightarrow> Inl e
           | Inr c1 \<Rightarrow>
               (case reinsert c1 (nat i) add_ins allreduce_ins of
                  Inl e \<Rightarrow> Inl e
                | Inr c2 \<Rightarrow> fix_type_mismatch c2 add_ins allreduce_ins (snd st))))"

fun rewrite_indices ::
  "int list \<Rightarrow> HloComputation \<times> nat list \<Rightarrow> fatal + HloComputation \<times> nat list" where
  "rewrite_indices [] st = Inr st"
| "rewrite_indices (i # is) st =
     (case rewrite_index i st of
        Inl e \<Rightarrow> Inl e
      | Inr st1 \<Rightarrow> rewrite_indices is st1)"

text \<open>
  The feature toggle and the index list come from the ambient configuration store
  (\<^verbatim>\<open>pass_context\<close>); here they are arguments. The module is its entry computation.
\<close>

definition Run :: "bool \<Rightarrow> int list \<Rightarrow> HloComputation \<Rightarrow> fatal + bool \<times> HloComputation" where
  "Run rewrite_for_grad_acc indices m =
     (if \<not> rewrite_for_grad_acc then Inr (False, m)
      else
        (case rewrite_indices indices (m, []) of
           Inl e \<Rightarrow> Inl e
         | Inr (entry, to_remove) \<Rightarrow> Inr (True, foldl RemoveInstruction entry to_remove)))"

section \<open>The diagnostic \<^verbatim>\<open>GetGradSyncChannelIds\<close>\<close>

text \<open>\<^verbatim>\<open>std::to_string\<close> on a signed 64-bit value: decimal digits, a minus sign first.\<close>

definition digit_char :: "nat \<Rightarrow> char" where
  "digit_char d = ''0123456789'' ! (d mod 10)"

function string_of_nat :: "nat \<Rightarrow> string" where
  "string_of_nat n =
     (if n < 10 then [digit_char n] else string_of_nat (n div 10) @ [digit_char (n mod 10)])"
  by pat_completeness auto
termination
  by (relation "measure id") auto

definition to_string :: "int \<Rightarrow> string" where
  "to_string i = (if i < 0 then CHR ''-'' # string_of_nat (nat (- i)) else string_of_nat (nat i))"

text \<open>
  Lines 147-157. \<^verbatim>\<open>inst->channel_id().value()\<close> is read for every tagged all-reduce: on
  an empty optional \<^verbatim>\<open>value()\<close> does not return a value.
\<close>

fun grad_sync_loop :: "HloInstruction option list \<Rightarrow> string \<Rightarrow> fatal + string" where
  "grad_sync_loop [] ret = Inr ret"
| "grad_sync_loop (None # rest) ret = grad_sync_loop rest ret"
| "grad_sync_loop (Some inst # rest) ret =
     (if opcode inst = kAllReduce \<and> metadata_op_name inst = kSkippableAllReduce then
        (case channel_id inst of
           None \<Rightarrow> Inl BadOptionalAccess
         | Some cid \<Rightarrow> grad_sync_loop rest (ret @ to_string cid @ ''.''))
      else grad_sync_loop rest ret)"

definition GetGradSyncChannelIds :: "HloComputation \<Rightarrow> fatal + string" where
  "GetGradSyncChannelIds m = grad_sync_loop (instructions m) ''.''"

section \<open>Cross-unit rewrite: \<^verbatim>\<open>GradAccCommDelay::RunOnModuleGroup\<close>\<close>

text \<open>
  Modelled from the spec: \<^verbatim>\<open>hlo_query::NextChannelId\<close> is not among the sources. The spec:
  the allocator scans the consumer unit once at entry to seed a counter strictly above
  the current maximum.
\<close>

definition NextChannelId :: "HloComputation \<Rightarrow> int" where
  "NextChannelId m =
     foldl (\<lambda>n slot.
              case slot of
                None \<Rightarrow> n
              | Some ins \<Rightarrow> (case channel_id ins of None \<Rightarrow> n | Some cid \<Rightarrow> max n (cid + 1)))
       1 (instructions m)"

definition parameter_instruction :: "HloComputation \<Rightarrow> int \<Rightarrow> fatal + nat" where
  "parameter_instruction c i =
     (if 0 \<le> i \<and> nat i < length (param_instructions c)
      then Inr (param_instructions c ! nat i)
      else Inl OutOfRange)"

text \<open>
  Lines 269-277: every consumer of the parameter in the snapshot is rewired, operand
  position by operand position, to the new collective (bridged to the parameter's shape).
\<close>

fun rewire_loop ::
  "nat list \<Rightarrow> HloComputation \<Rightarrow> nat \<Rightarrow> nat \<Rightarrow> nat \<Rightarrow> Shape \<Rightarrow> fatal + HloComputation" where
  "rewire_loop [] c param_user param_ins new_allreduce sh = Inr c"
| "rewire_loop (i # is) c param_user param_ins new_allreduce sh =
     (case mutable_operand c param_user i of
        Inl e \<Rightarrow> Inl e
      | Inr x \<Rightarrow>
          if x = param_ins then
            (case MaybeReshapeConvert c new_allreduce sh of
               Inl e \<Rightarrow> Inl e
             | Inr (c1, r) \<Rightarrow>
                 rewire_loop is (ReplaceOperandWith c1 param_user i r)
                   param_user param_ins new_allreduce sh)
          else rewire_loop is c param_user param_ins new_allreduce sh)"

fun rewire_users ::
  "nat list \<Rightarrow> HloComputation \<Rightarrow> nat \<Rightarrow> nat \<Rightarrow> Shape \<Rightarrow> fatal + HloComputation" where
  "rewire_users [] c param_ins new_allreduce sh = Inr c"
| "rewire_users (param_user # rest) c param_ins new_allreduce sh =
     (case deref c param_user of
        None \<Rightarrow> Inl DanglingPointer
      | Some u \<Rightarrow>
          (case rewire_loop [0..<length (operands u)] c param_user param_ins new_allreduce sh of
             Inl e \<Rightarrow> Inl e
           | Inr c1 \<Rightarrow> rewire_users rest c1 param_ins new_allreduce sh))"

text \<open>
  Lines 248-267: the new collective of the consumer unit. The result is the consumer
  unit, the new collective, the parameter, the snapshot of the parameter's users and the
  counter. \<^verbatim>\<open>next_channel_id++\<close> is an increment of an \<^verbatim>\<open>int64_t\<close> that nothing guards:
  the collective takes the value before the increment, and from the largest value,
  \<^verbatim>\<open>2^63 - 1\<close>, the counter goes round to the smallest, \<^verbatim>\<open>-2^63\<close>. The \<^verbatim>\<open>assert\<close> on the
  element types is taken as enabled.
\<close>

definition int64_wrap :: "int \<Rightarrow> int" where
  "int64_wrap x = (x + 2 ^ 63) mod 2 ^ 64 - 2 ^ 63"

definition create_delayed ::
  "HloInstruction \<Rightarrow> HloInstruction \<Rightarrow> int \<Rightarrow> HloComputation \<Rightarrow> int
     \<Rightarrow> fatal + HloComputation \<times> nat \<times> nat \<times> nat list \<times> int" where
  "create_delayed old_allreduce ad in_index applygrad next_channel_id =
     (case parameter_instruction applygrad in_index of
        Inl e \<Rightarrow> Inl e
      | Inr param_ins \<Rightarrow>
          (case deref applygrad param_ins of
             None \<Rightarrow> Inl DanglingPointer
           | Some param \<Rightarrow>
               (case users applygrad param_ins of
                  param_users \<Rightarrow>
                    if \<not> SameElementType (shape ad) (shape param) then Inl CheckFailure
                    else
                      (case MaybeReshapeConvertTuple applygrad [param_ins] (shape param) of
                         Inl e \<Rightarrow> Inl e
                       | Inr (c1, ops) \<Rightarrow>
                           (case AddInstruction c1
                                   ((CreateAllReduce (shape param) ops
                                       (BinaryAdd (element_type (shape param)))
                                       (replica_groups old_allreduce)
                                       (constrain_layout old_allreduce)
                                       (if channel_id old_allreduce \<noteq> None
                                        then Some next_channel_id else None)
                                       (use_global_device_ids old_allreduce))
                                      \<lparr>metadata_op_name := metadata_op_name old_allreduce\<rparr>) of
                              (c2, new_allreduce) \<Rightarrow>
                                Inr (c2, new_allreduce, param_ins, param_users,
                                     (if channel_id old_allreduce \<noteq> None
                                      then int64_wrap (next_channel_id + 1)
                                      else next_channel_id)))))))"

definition relocate ::
  "HloInstruction \<Rightarrow> HloInstruction \<Rightarrow> int \<Rightarrow> HloComputation \<Rightarrow> int
     \<Rightarrow> fatal + HloComputation \<times> int" where
  "relocate old_allreduce ad in_index applygrad next_channel_id =
     (case create_delayed old_allreduce ad in_index applygrad next_channel_id of
        Inl e \<Rightarrow> Inl e
      | Inr (c2, new_allreduce, param_ins, param_users, n) \<Rightarrow>
          (case deref c2 param_ins of
             None \<Rightarrow> Inl DanglingPointer
           | Some param \<Rightarrow>
               (case rewire_users param_users c2 param_ins new_allreduce (shape param) of
                  Inl e \<Rightarrow> Inl e
                | Inr c3 \<Rightarrow> Inr (c3, n))))"

record delay_state =
  backward :: HloComputation
  applygrad :: HloComputation
  next_channel_id :: int
  to_remove :: "nat list"

text \<open>Lines 195-279: the body of the loop over the paired index lists.\<close>

definition delay_index :: "int \<times> int \<Rightarrow> delay_state \<Rightarrow> fatal + delay_state" where
  "delay_index idx st =
     (case match_index (backward st) (fst idx) of
        Inl e \<Rightarrow> Inl e
      | Inr None \<Rightarrow> Inr st
      | Inr (Some (add_ins, allreduce_ins)) \<Rightarrow>
          (case detach (backward st) allreduce_ins of
             Inl e \<Rightarrow> Inl e
           | Inr c1 \<Rightarrow>
               if snd idx = - 1 then
                 (case reinsert c1 (nat (fst idx)) add_ins allreduce_ins of
                    Inl e \<Rightarrow> Inl e
                  | Inr c2 \<Rightarrow>
                      (case fix_type_mismatch c2 add_ins allreduce_ins (to_remove st) of
                         Inl e \<Rightarrow> Inl e
                       | Inr (c3, rm) \<Rightarrow> Inr (st\<lparr>backward := c3, to_remove := rm\<rparr>)))
               else
                 (case set_metadata_op_name c1 allreduce_ins kDelayedAllReduce of
                    c2 \<Rightarrow>
                      (case deref c2 allreduce_ins of
                         None \<Rightarrow> Inl DanglingPointer
                       | Some old_allreduce \<Rightarrow>
                           (case deref c2 add_ins of
                              None \<Rightarrow> Inl DanglingPointer
                            | Some ad \<Rightarrow>
                                (case relocate old_allreduce ad (snd idx) (applygrad st)
                                        (next_channel_id st) of
                                   Inl e \<Rightarrow> Inl e
                                 | Inr (a1, n) \<Rightarrow>
                                     Inr (st\<lparr>backward := c2, applygrad := a1,
                                             next_channel_id := n,
                                             to_remove := to_remove st @ [allreduce_ins]\<rparr>)))))))"

fun delay_indices :: "(int \<times> int) list \<Rightarrow> delay_state \<Rightarrow> fatal + delay_state" where
  "delay_indices [] st = Inr st"
| "delay_indices (idx # rest) st =
     (case delay_index idx st of
        Inl e \<Rightarrow> Inl e
      | Inr st1 \<Rightarrow> delay_indices rest st1)"

text \<open>
  The module group is the pair (producer unit, consumer unit); the result is the flag and
  the two units.
\<close>

definition RunOnModuleGroup ::
  "bool \<Rightarrow> int list \<Rightarrow> int list \<Rightarrow> HloComputation \<times> HloComputation
     \<Rightarrow> fatal + bool \<times> HloComputation \<times> HloComputation" where
  "RunOnModuleGroup rewrite_for_grad_acc output_indices input_indices module_group =
     (if \<not> rewrite_for_grad_acc then Inr (False, module_group)
      else if length output_indices \<noteq> length input_indices then Inl CheckFailure
      else
        (case delay_indices (zip output_indices input_indices)
                \<lparr>backward = fst module_group, applygrad = snd module_group,
                 next_channel_id = NextChannelId (snd module_group), to_remove = []\<rparr> of
           Inl e \<Rightarrow> Inl e
         | Inr st \<Rightarrow>
             Inr (True, foldl RemoveInstruction (backward st) (to_remove st), applygrad st)))"

section \<open>Notions used in the statements\<close>

text \<open>
  A bridge path from \<open>r\<close> to \<open>n\<close>: \<open>r\<close> is \<open>n\<close>, or a convert or reshape node whose only
  operand has a bridge path to \<open>n\<close>. These are the nodes the shape/type bridge inserts.
\<close>

inductive bridge_path :: "HloComputation \<Rightarrow> nat \<Rightarrow> nat \<Rightarrow> bool" for c :: HloComputation where
  here: "bridge_path c n n"
| through: "deref c r = Some ins \<Longrightarrow> opcode ins = kConvert \<or> opcode ins = kReshape \<Longrightarrow>
     operands ins = [v] \<Longrightarrow> bridge_path c v n \<Longrightarrow> bridge_path c r n"

text \<open>The operand relation of a computation: \<open>(x, u)\<close> when \<open>x\<close> is an operand of \<open>u\<close>.\<close>

definition operand_rel :: "HloComputation \<Rightarrow> (nat \<times> nat) set" where
  "operand_rel c = {(x, u). uses c x u}"


section \<open>Example units\<close>

definition array_ins :: "HloOpcode \<Rightarrow> PrimitiveType \<Rightarrow> nat list \<Rightarrow> HloInstruction" where
  "array_ins oc t ops = new_instruction oc (ArrayShape t [4]) ops"

text \<open>
  Scenario A of the spec: output position 2 is \<open>Add(local_grad, AllReduce(partial))\<close>;
  the all-reduce has channel identifier 7 and one user.
\<close>

definition scenario_A :: HloComputation where
  "scenario_A =
     \<lparr>instructions =
        [Some (array_ins kParameter F32 []),
         Some (array_ins kParameter F32 []),
         Some ((array_ins kAllReduce F32 [1])\<lparr>channel_id := Some 7\<rparr>),
         Some (array_ins kAdd F32 [0, 2]),
         Some (array_ins kParameter F32 []),
         Some (new_instruction kTuple
                 (TupleShape [ArrayShape F32 [4], ArrayShape F32 [4], ArrayShape F32 [4]])
                 [4, 4, 3])],
      root_instruction = 5, param_instructions = [0, 1, 4]\<rparr>"

definition scenario_A_rewritten :: HloComputation where
  "scenario_A_rewritten =
     \<lparr>instructions =
        [Some (array_ins kParameter F32 []),
         Some (array_ins kParameter F32 []),
         Some ((array_ins kAllReduce F32 [3])
                 \<lparr>metadata_op_name := kSkippableAllReduce, channel_id := Some 7\<rparr>),
         Some (array_ins kAdd F32 [0, 1]),
         Some (array_ins kParameter F32 []),
         Some (new_instruction kTuple
                 (TupleShape [ArrayShape F32 [4], ArrayShape F32 [4], ArrayShape F32 [4]])
                 [4, 4, 2])],
      root_instruction = 5, param_instructions = [0, 1, 4]\<rparr>"

text \<open>
  Scenario D of the spec: a half-precision all-reduce, converted, feeds a full-precision
  Add at output position 0.
\<close>

definition scenario_D :: HloComputation where
  "scenario_D =
     \<lparr>instructions =
        [Some (array_ins kParameter F32 []),
         Some (array_ins kParameter F16 []),
         Some ((array_ins kAllReduce F16 [1])\<lparr>channel_id := Some 7\<rparr>),
         Some (array_ins kConvert F32 [2]),
         Some (array_ins kAdd F32 [0, 3]),
         Some (new_instruction kTuple (TupleShape [ArrayShape F32 [4]]) [4])],
      root_instruction = 5, param_instructions = [0, 1]\<rparr>"


text \<open>An all-reduce scaled by a constant before it is accumulated.\<close>

definition scaled_unit :: HloComputation where
  "scaled_unit =
     \<lparr>instructions =
        [Some (array_ins kParameter F32 []),
         Some ((array_ins kAllReduce F32 [0])\<lparr>channel_id := Some 5\<rparr>),
         Some (array_ins kConstant F32 []),
         Some (array_ins kMultiply F32 [1, 2]),
         Some (array_ins kParameter F32 []),
         Some (array_ins kAdd F32 [4, 3]),
         Some (new_instruction kTuple (TupleShape [ArrayShape F32 [4]]) [5])],
      root_instruction = 6, param_instructions = [0, 4]\<rparr>"

text \<open>A half-precision source for the bridge, alone in its computation.\<close>

definition half_source :: HloComputation where
  "half_source =
     \<lparr>instructions = [Some (array_ins kParameter F16 [])],
      root_instruction = 0, param_instructions = [0]\<rparr>"

text \<open>An all-reduce tagged elidable that carries no channel identifier.\<close>

definition local_tagged :: HloComputation where
  "local_tagged =
     \<lparr>instructions =
        [Some (array_ins kParameter F32 []),
         Some ((array_ins kAllReduce F32 [0])\<lparr>metadata_op_name := kSkippableAllReduce\<rparr>)],
      root_instruction = 1, param_instructions = [0]\<rparr>"

text \<open>
  A producer unit with two accumulations (output positions 0 and 1; the all-reduces have
  channel identifiers 3 and 4) and a consumer unit whose parameters 0 and 1 receive them;
  the consumer already holds an all-reduce with channel identifier 12.
\<close>

definition producer :: HloComputation where
  "producer =
     \<lparr>instructions =
        [Some (array_ins kParameter F32 []),
         Some (array_ins kParameter F32 []),
         Some ((array_ins kAllReduce F32 [1])\<lparr>channel_id := Some 3\<rparr>),
         Some (array_ins kAdd F32 [0, 2]),
         Some (array_ins kParameter F32 []),
         Some (array_ins kParameter F32 []),
         Some ((array_ins kAllReduce F32 [5])\<lparr>channel_id := Some 4\<rparr>),
         Some (array_ins kAdd F32 [4, 6]),
         Some (new_instruction kTuple
                 (TupleShape [ArrayShape F32 [4], ArrayShape F32 [4]]) [3, 7])],
      root_instruction = 8, param_instructions = [0, 1, 4, 5]\<rparr>"

definition consumer :: HloComputation where
  "consumer =
     \<lparr>instructions =
        [Some (array_ins kParameter F32 []),
         Some (array_ins kParameter F32 []),
         Some ((array_ins kAllReduce F32 [1])\<lparr>channel_id := Some 12\<rparr>),
         Some (array_ins kAdd F32 [0, 2]),
         Some (array_ins kMultiply F32 [0, 0]),
         Some (new_instruction kTuple
                 (TupleShape [ArrayShape F32 [4], ArrayShape F32 [4]]) [3, 4])],
      root_instruction = 5, param_instructions = [0, 1]\<rparr>"

text \<open>The two units after both collectives were relocated.\<close>

definition producer_delayed :: HloComputation where
  "producer_delayed =
     \<lparr>instructions =
        [Some (array_ins kParameter F32 []),
         Some (array_ins kParameter F32 []),
         None,
         Some (array_ins kAdd F32 [0, 1]),
         Some (array_ins kParameter F32 []),
         Some (array_ins kParameter F32 []),
         None,
         Some (array_ins kAdd F32 [4, 5]),
         Some (new_instruction kTuple
                 (TupleShape [ArrayShape F32 [4], ArrayShape F32 [4]]) [3, 7])],
      root_instruction = 8, param_instructions = [0, 1, 4, 5]\<rparr>"

definition relocated_ins :: "nat \<Rightarrow> int \<Rightarrow> HloInstruction" where
  "relocated_ins param chan =
     (array_ins kAllReduce F32 [param])
       \<lparr>metadata_op_name := kDelayedAllReduce, channel_id := Some chan,
        to_apply := Some (BinaryAdd F32)\<rparr>"

definition consumer_delayed :: HloComputation where
  "consumer_delayed =
     \<lparr>instructions =
        [Some (array_ins kParameter F32 []),
         Some (array_ins kParameter F32 []),
         Some ((array_ins kAllReduce F32 [7])\<lparr>channel_id := Some 12\<rparr>),
         Some (array_ins kAdd F32 [6, 2]),
         Some (array_ins kMultiply F32 [6, 6]),
         Some (new_instruction kTuple
                 (TupleShape [ArrayShape F32 [4], ArrayShape F32 [4]]) [3, 4]),
         Some (relocated_ins 0 13),
         Some (relocated_ins 1 14)],
      root_instruction = 5, param_instructions = [0, 1]\<rparr>"

text \<open>The consumer unit after the relocation to parameter 0 alone.\<close>

definition consumer_delayed_first :: HloComputation where
  "consumer_delayed_first =
     \<lparr>instructions =
        [Some (array_ins kParameter F32 []),
         Some (array_ins kParameter F32 []),
         Some ((array_ins kAllReduce F32 [1])\<lparr>channel_id := Some 12\<rparr>),
         Some (array_ins kAdd F32 [6, 2]),
         Some (array_ins kMultiply F32 [6, 6]),
         Some (new_instruction kTuple
                 (TupleShape [ArrayShape F32 [4], ArrayShape F32 [4]]) [3, 4]),
         Some (relocated_ins 0 13)],
      root_instruction = 5, param_instructions = [0, 1]\<rparr>"



section \<open>Notions used in the proofs\<close>

text \<open>
  \<open>keeps n c c'\<close>: a node live in \<open>c\<close> is live in \<open>c'\<close> with the same opcode, shape and
  operand count. \<open>grows c c'\<close>: this holds for every node, no slot disappears, and the
  root and the parameter list are the same.
\<close>

definition keeps :: "nat \<Rightarrow> HloComputation \<Rightarrow> HloComputation \<Rightarrow> bool" where
  "keeps n c c' =
     (\<forall>ins. deref c n = Some ins \<longrightarrow>
        (\<exists>ins'. deref c' n = Some ins' \<and> opcode ins' = opcode ins \<and> shape ins' = shape ins
           \<and> length (operands ins') = length (operands ins)))"

definition grows :: "HloComputation \<Rightarrow> HloComputation \<Rightarrow> bool" where
  "grows c c' =
     (root_instruction c' = root_instruction c \<and> param_instructions c' = param_instructions c
      \<and> length (instructions c) \<le> length (instructions c') \<and> (\<forall>n. keeps n c c'))"

text \<open>The root is the same instruction and keeps its opcode, shape and operand count.\<close>

definition root_kept :: "HloComputation \<Rightarrow> HloComputation \<Rightarrow> bool" where
  "root_kept c c' =
     (root_instruction c' = root_instruction c \<and> keeps (root_instruction c) c c')"

text \<open>The all-reduce that the relocation adds to the consumer unit.\<close>

definition delayed_allreduce ::
  "HloInstruction \<Rightarrow> Shape \<Rightarrow> nat list \<Rightarrow> int \<Rightarrow> HloInstruction" where
  "delayed_allreduce old sh ops n =
     (CreateAllReduce sh ops (BinaryAdd (element_type sh)) (replica_groups old)
        (constrain_layout old) (if channel_id old \<noteq> None then Some n else None)
        (use_global_device_ids old))\<lparr>metadata_op_name := metadata_op_name old\<rparr>"



text \<open>
  What one call of the bridge does to a computation: it appends at most two nodes, each a
  convert or a reshape without channel identifier whose only operand is the source (the
  first) or the node appended just before (the second), and returns the source when it
  appended nothing and the last appended node, of the target shape, otherwise.
\<close>

definition bridged :: "HloComputation \<Rightarrow> nat \<Rightarrow> Shape \<Rightarrow> HloComputation \<Rightarrow> nat \<Rightarrow> bool" where
  "bridged c src sh c' r =
     (\<exists>new. c' = c\<lparr>instructions := instructions c @ map Some new\<rparr> \<and> length new \<le> 2
        \<and> (\<forall>i < length new.
              (opcode (new ! i) = kConvert \<or> opcode (new ! i) = kReshape)
              \<and> channel_id (new ! i) = None
              \<and> operands (new ! i) = [if i = 0 then src else length (instructions c) + i - 1])
        \<and> (new = [] \<longrightarrow> r = src)
        \<and> (new \<noteq> [] \<longrightarrow> r = length (instructions c) + length new - 1
                        \<and> shape (last new) = sh))"

text \<open>Every operand of a live instruction is a slot of the computation.\<close>

definition operands_in_range :: "HloComputation \<Rightarrow> bool" where
  "operands_in_range c =
     (\<forall>u ins. deref c u = Some ins \<longrightarrow> (\<forall>x \<in> set (operands ins). x < length (instructions c)))"

text \<open>A ranking of the slots that every operand edge respects.\<close>

definition ranked :: "(nat \<Rightarrow> nat) \<Rightarrow> HloComputation \<Rightarrow> bool" where
  "ranked rk c = (\<forall>u ins. deref c u = Some ins \<longrightarrow> (\<forall>x \<in> set (operands ins). rk x < rk u))"

text \<open>
  \<open>rewired k U c c'\<close>: the computations have the same slots, the instructions outside
  \<open>U\<close> are the same, and an instruction of \<open>c'\<close> has no operand beyond \<open>k\<close> and the
  operands it had in \<open>c\<close>.
\<close>

definition rewired :: "nat \<Rightarrow> nat set \<Rightarrow> HloComputation \<Rightarrow> HloComputation \<Rightarrow> bool" where
  "rewired k U c c' =
     (length (instructions c') = length (instructions c)
      \<and> (\<forall>j. j \<notin> U \<longrightarrow> deref c' j = deref c j)
      \<and> (\<forall>j ins'. deref c' j = Some ins' \<longrightarrow>
            (\<exists>ins. deref c j = Some ins
               \<and> set (operands ins') \<subseteq> insert k (set (operands ins)))))"

text \<open>Every convert and reshape node of \<open>c\<close> is the same instruction in \<open>c'\<close>.\<close>

definition bridges_kept :: "HloComputation \<Rightarrow> HloComputation \<Rightarrow> bool" where
  "bridges_kept c c' =
     (\<forall>j ins. deref c j = Some ins \<longrightarrow> opcode ins = kConvert \<or> opcode ins = kReshape \<longrightarrow>
        deref c' j = Some ins)"

section \<open>Shapes and the arena\<close>

subsection \<open>Shapes\<close>

lemma CompatibleList_refl_aux:
  "(\<And>s. s \<in> set ss \<Longrightarrow> Compatible s s) \<Longrightarrow> CompatibleList ss ss"
  by (induction ss) auto

lemma Compatible_refl: "Compatible s s"
  by (induction s) (auto intro: CompatibleList_refl_aux)

lemma Compatible_SameElementType: "Compatible s t \<Longrightarrow> SameElementType s t"
  by (cases s; cases t) (auto simp: SameElementType_def)

subsection \<open>Arena\<close>

lemma deref_AddInstruction:
  "deref (fst (AddInstruction c ins)) n =
     (if n = length (instructions c) then Some ins else deref c n)"
  by (auto simp: deref_def AddInstruction_def nth_append)

lemma snd_AddInstruction: "snd (AddInstruction c ins) = length (instructions c)"
  by (simp add: AddInstruction_def)

lemma length_AddInstruction:
  "length (instructions (fst (AddInstruction c ins))) = Suc (length (instructions c))"
  by (simp add: AddInstruction_def)

lemma deref_update_instruction:
  "deref (update_instruction c n f) k =
     (if k = n then map_option f (deref c n) else deref c k)"
  by (auto simp: deref_def update_instruction_def split: option.splits)

lemma length_update_instruction:
  "length (instructions (update_instruction c n f)) = length (instructions c)"
  by (auto simp: update_instruction_def split: option.splits)

lemma deref_RAUW:
  "deref (ReplaceAllUsesWith c old new) k = map_option (redirect old new) (deref c k)"
  by (auto simp: deref_def ReplaceAllUsesWith_def)

text \<open>
  Claim C8. For every live source node and every target shape, the bridge returns a node
  whose shape is compatible with the target (dimensions and element type), and the
  bridge applied to that result with the same target returns it unchanged, in the same
  computation: no node is created the second time.
\<close>

theorem MaybeReshapeConvert_idempotent:
  assumes "deref c src = Some s"
  shows "\<exists>c' r ins. MaybeReshapeConvert c src dst_shape = Inr (c', r)
           \<and> deref c' r = Some ins \<and> Compatible (shape ins) dst_shape
           \<and> MaybeReshapeConvert c' r dst_shape = Inr (c', r)"
proof (cases "Compatible (shape s) dst_shape")
  case True
  with assms show ?thesis by (simp add: MaybeReshapeConvert_def)
next
  case False
  obtain c1 v where mc: "MaybeConvert c src dst_shape = Inr (c1, v)"
    using assms by (cases "SameElementType (shape s) dst_shape")
      (auto simp: MaybeConvert_def AddInstruction_def)
  let ?c' = "fst (AddInstruction c1 (CreateReshape dst_shape v))"
  let ?r = "length (instructions c1)"
  have run: "MaybeReshapeConvert c src dst_shape = Inr (?c', ?r)"
    using assms False mc by (simp add: MaybeReshapeConvert_def AddInstruction_def)
  have d: "deref ?c' ?r = Some (CreateReshape dst_shape v)"
    by (simp add: deref_AddInstruction)
  have sh: "shape (CreateReshape dst_shape v) = dst_shape"
    by (simp add: CreateReshape_def new_instruction_def)
  have "MaybeReshapeConvert ?c' ?r dst_shape = Inr (?c', ?r)"
    using d sh by (simp add: MaybeReshapeConvert_def Compatible_refl)
  with run d sh show ?thesis by (auto simp: Compatible_refl)
qed


lemma not_SameElementType_not_Compatible: "\<not> SameElementType s t \<Longrightarrow> \<not> Compatible s t"
  using Compatible_SameElementType by blast

text \<open>
  Claim C5, as amended. When the source's shape is compatible with the target, the source
  is returned and the computation is unchanged. When the element types differ, whether
  or not the dimensions agree, two nodes are appended: a convert of the source with the
  source's dimensions and the target's element type, and a reshape of that convert to
  the target shape; the reshape is returned.
\<close>

theorem MaybeReshapeConvert_cases:
  assumes "deref c src = Some s"
  shows "(Compatible (shape s) dst_shape \<longrightarrow> MaybeReshapeConvert c src dst_shape = Inr (c, src))
       \<and> (\<not> SameElementType (shape s) dst_shape \<longrightarrow>
            MaybeReshapeConvert c src dst_shape =
              Inr (c\<lparr>instructions := instructions c @
                      [Some (CreateConvert
                               (ChangeElementType (shape s) (element_type dst_shape)) src),
                       Some (CreateReshape dst_shape (length (instructions c)))]\<rparr>,
                   Suc (length (instructions c))))"
  using assms not_SameElementType_not_Compatible [of "shape s" dst_shape]
  by (simp add: MaybeReshapeConvert_def MaybeConvert_def AddInstruction_def)

lemma array_ins_simps:
  "opcode (array_ins oc t ops) = oc" "shape (array_ins oc t ops) = ArrayShape t [4]"
  "operands (array_ins oc t ops) = ops"
  by (simp_all add: array_ins_def new_instruction_def)

theorem MaybeReshapeConvert_cases_witness:
  "MaybeReshapeConvert half_source 0 (ArrayShape F16 [4]) = Inr (half_source, 0)
   \<and> MaybeReshapeConvert half_source 0 (ArrayShape F32 [4]) =
       Inr (half_source\<lparr>instructions := instructions half_source @
              [Some (CreateConvert (ArrayShape F32 [4]) 0),
               Some (CreateReshape (ArrayShape F32 [4]) 1)]\<rparr>, 2)"
proof -
  have d: "deref half_source 0 = Some (array_ins kParameter F16 [])"
    by (simp add: deref_def half_source_def)
  show ?thesis
    using MaybeReshapeConvert_cases [OF d, of "ArrayShape F16 [4]"]
      MaybeReshapeConvert_cases [OF d, of "ArrayShape F32 [4]"]
    by (simp add: array_ins_simps SameElementType_def) (simp add: half_source_def)
qed

text \<open>
  Claim C5 as stated fails: a source of shape f16[4] bridged to f32[4] (same dimensions,
  other element type) gets a convert node and a reshape node, and the reshape is
  returned, not the convert.
\<close>

theorem MaybeReshapeConvert_same_dims_counterexample:
  "MaybeReshapeConvert half_source 0 (ArrayShape F32 [4]) =
     Inr (\<lparr>instructions =
            [Some (array_ins kParameter F16 []),
             Some (array_ins kConvert F32 [0]),
             Some (array_ins kReshape F32 [1])],
          root_instruction = 0, param_instructions = [0]\<rparr>, 2)"
  by (simp add: MaybeReshapeConvert_def MaybeConvert_def AddInstruction_def deref_def
      half_source_def array_ins_def new_instruction_def SameElementType_def
      CreateConvert_def CreateReshape_def)

theorem MaybeReshapeConvert_idempotent_witness:
  "\<exists>c' r ins. MaybeReshapeConvert half_source 0 (ArrayShape F32 [4]) = Inr (c', r)
           \<and> deref c' r = Some ins \<and> Compatible (shape ins) (ArrayShape F32 [4])
           \<and> MaybeReshapeConvert c' r (ArrayShape F32 [4]) = Inr (c', r)"
proof -
  have d: "deref half_source 0 = Some (array_ins kParameter F16 [])"
    by (simp add: deref_def half_source_def)
  show ?thesis
    using MaybeReshapeConvert_idempotent [OF d] by simp
qed

subsection \<open>Diagnostic\<close>

lemma grad_sync_loop_Inl: "grad_sync_loop xs ret = Inl e \<Longrightarrow> e = BadOptionalAccess"
  by (induction xs ret rule: grad_sync_loop.induct) (auto split: if_splits option.splits)

lemma grad_sync_loop_defined:
  "(\<exists>s. grad_sync_loop xs ret = Inr s) \<longleftrightarrow>
   (\<forall>inst. Some inst \<in> set xs \<longrightarrow> opcode inst = kAllReduce \<longrightarrow>
      metadata_op_name inst = kSkippableAllReduce \<longrightarrow> channel_id inst \<noteq> None)"
proof (induction xs ret rule: grad_sync_loop.induct)
  case (1 ret)
  then show ?case by simp
next
  case (2 rest ret)
  then show ?case by simp
next
  case (3 inst rest ret)
  show ?case
  proof (cases "opcode inst = kAllReduce \<and> metadata_op_name inst = kSkippableAllReduce")
    case True
    then show ?thesis using 3 by (cases "channel_id inst") auto
  next
    case False
    then show ?thesis using 3 by auto
  qed
qed

text \<open>
  Claim C9. The diagnostic has a result exactly when every all-reduce tagged elidable
  carries a channel identifier; with a tagged all-reduce that carries none, reading the
  empty optional is fatal and there is no string.
\<close>

theorem GetGradSyncChannelIds_defined_iff:
  "((\<exists>s. GetGradSyncChannelIds m = Inr s) \<longleftrightarrow>
     (\<forall>inst. Some inst \<in> set (instructions m) \<longrightarrow> opcode inst = kAllReduce \<longrightarrow>
        metadata_op_name inst = kSkippableAllReduce \<longrightarrow> channel_id inst \<noteq> None))
   \<and> ((\<exists>inst. Some inst \<in> set (instructions m) \<and> opcode inst = kAllReduce \<and>
          metadata_op_name inst = kSkippableAllReduce \<and> channel_id inst = None) \<longrightarrow>
        GetGradSyncChannelIds m = Inl BadOptionalAccess)"
proof -
  have a: "(\<exists>s. GetGradSyncChannelIds m = Inr s) \<longleftrightarrow>
     (\<forall>inst. Some inst \<in> set (instructions m) \<longrightarrow> opcode inst = kAllReduce \<longrightarrow>
        metadata_op_name inst = kSkippableAllReduce \<longrightarrow> channel_id inst \<noteq> None)"
    unfolding GetGradSyncChannelIds_def by (rule grad_sync_loop_defined)
  have b: "GetGradSyncChannelIds m = Inl BadOptionalAccess"
    if "\<exists>inst. Some inst \<in> set (instructions m) \<and> opcode inst = kAllReduce \<and>
          metadata_op_name inst = kSkippableAllReduce \<and> channel_id inst = None"
  proof (cases "GetGradSyncChannelIds m")
    case (Inl e)
    then show ?thesis
      using grad_sync_loop_Inl [of "instructions m" "''.''" e]
      by (simp add: GetGradSyncChannelIds_def)
  next
    case (Inr s)
    then show ?thesis using a that by blast
  qed
  from a b show ?thesis by blast
qed

theorem GetGradSyncChannelIds_defined_iff_witness:
  "GetGradSyncChannelIds local_tagged = Inl BadOptionalAccess
   \<and> (\<exists>s. GetGradSyncChannelIds scenario_A_rewritten = Inr s)"
proof -
  have 1: "\<exists>inst. Some inst \<in> set (instructions local_tagged) \<and> opcode inst = kAllReduce \<and>
          metadata_op_name inst = kSkippableAllReduce \<and> channel_id inst = None"
    by (rule exI [of _ "(array_ins kAllReduce F32 [0])\<lparr>metadata_op_name := kSkippableAllReduce\<rparr>"])
      (simp add: local_tagged_def array_ins_def new_instruction_def)
  have 2: "\<forall>inst. Some inst \<in> set (instructions scenario_A_rewritten) \<longrightarrow>
        opcode inst = kAllReduce \<longrightarrow>
        metadata_op_name inst = kSkippableAllReduce \<longrightarrow> channel_id inst \<noteq> None"
    by (auto simp: scenario_A_rewritten_def array_ins_def new_instruction_def)
  show ?thesis
    using GetGradSyncChannelIds_defined_iff [of local_tagged]
      GetGradSyncChannelIds_defined_iff [of scenario_A_rewritten] 1 2
    by blast
qed

subsection \<open>Chain matcher\<close>

text \<open>
  Claim C2. On a live node the chain matcher returns the node itself for an all-reduce;
  the result of the recursion into operand 0 for convert, reshape, copy, bitcast and
  transpose; for a multiply whose two recursions return, the side that resolved when
  exactly one did and none otherwise; none for every other opcode. The function returns
  a value only: the computation is an argument and is not part of the result.
\<close>

theorem GetAllReduce_cases:
  assumes "deref c src = Some ins"
  shows "(opcode ins = kAllReduce \<longrightarrow> GetAllReduce c src = Some (Inr (Some src)))
       \<and> (opcode ins \<in> {kConvert, kReshape, kCopy, kBitcast, kTranspose} \<longrightarrow>
            (\<forall>x xs. operands ins = x # xs \<longrightarrow> GetAllReduce c src = GetAllReduce c x))
       \<and> (opcode ins = kMultiply \<longrightarrow>
            (\<forall>x y zs lhs rhs. operands ins = x # y # zs \<longrightarrow>
               GetAllReduce c x = Some (Inr lhs) \<longrightarrow> GetAllReduce c y = Some (Inr rhs) \<longrightarrow>
               GetAllReduce c src =
                 Some (Inr (if lhs \<noteq> None \<and> rhs = None then lhs
                            else if lhs = None \<and> rhs \<noteq> None then rhs
                            else None))))
       \<and> (opcode ins \<notin> {kAllReduce, kConvert, kReshape, kCopy, kBitcast, kTranspose, kMultiply} \<longrightarrow>
            GetAllReduce c src = Some (Inr None))"
proof (intro conjI impI allI)
  assume "opcode ins = kAllReduce"
  with assms show "GetAllReduce c src = Some (Inr (Some src))"
    by (subst GetAllReduce.simps) simp
next
  fix x xs
  assume "opcode ins \<in> {kConvert, kReshape, kCopy, kBitcast, kTranspose}" "operands ins = x # xs"
  with assms show "GetAllReduce c src = GetAllReduce c x"
    by (subst GetAllReduce.simps) (auto simp: pass_through_def)
next
  fix x y zs lhs rhs
  assume "opcode ins = kMultiply" "operands ins = x # y # zs"
    "GetAllReduce c x = Some (Inr lhs)" "GetAllReduce c y = Some (Inr rhs)"
  with assms show "GetAllReduce c src =
      Some (Inr (if lhs \<noteq> None \<and> rhs = None then lhs
                 else if lhs = None \<and> rhs \<noteq> None then rhs else None))"
    by (subst GetAllReduce.simps) (simp add: pass_through_def one_side_def)
next
  assume "opcode ins \<notin> {kAllReduce, kConvert, kReshape, kCopy, kBitcast, kTranspose, kMultiply}"
  with assms show "GetAllReduce c src = Some (Inr None)"
    by (subst GetAllReduce.simps) (simp add: pass_through_def)
qed

lemma deref_scenario_D:
  "deref scenario_D 2 = Some ((array_ins kAllReduce F16 [1])\<lparr>channel_id := Some 7\<rparr>)"
  "deref scenario_D 3 = Some (array_ins kConvert F32 [2])"
  "deref scenario_D 0 = Some (array_ins kParameter F32 [])"
  by (simp_all add: deref_def scenario_D_def)

lemma deref_scaled_unit:
  "deref scaled_unit 1 = Some ((array_ins kAllReduce F32 [0])\<lparr>channel_id := Some 5\<rparr>)"
  "deref scaled_unit 2 = Some (array_ins kConstant F32 [])"
  "deref scaled_unit 3 = Some (array_ins kMultiply F32 [1, 2])"
  by (simp_all add: deref_def scaled_unit_def)

theorem GetAllReduce_cases_witness:
  "GetAllReduce scenario_D 3 = Some (Inr (Some 2)) \<and> GetAllReduce scenario_D 0 = Some (Inr None)
   \<and> GetAllReduce scaled_unit 3 = Some (Inr (Some 1))"
proof -
  have 1: "GetAllReduce scenario_D 3 = Some (Inr (Some 2))"
    using GetAllReduce_cases [OF deref_scenario_D(1)] GetAllReduce_cases [OF deref_scenario_D(2)]
    by (simp add: array_ins_simps)
  have 2: "GetAllReduce scenario_D 0 = Some (Inr None)"
    using GetAllReduce_cases [OF deref_scenario_D(3)] by (simp add: array_ins_simps)
  have l: "GetAllReduce scaled_unit 1 = Some (Inr (Some 1))"
    using GetAllReduce_cases [OF deref_scaled_unit(1)] by (simp add: array_ins_simps)
  have r: "GetAllReduce scaled_unit 2 = Some (Inr None)"
    using GetAllReduce_cases [OF deref_scaled_unit(2)] by (simp add: array_ins_simps)
  have 3: "GetAllReduce scaled_unit 3 = Some (Inr (Some 1))"
    using GetAllReduce_cases [OF deref_scaled_unit(3), THEN conjunct2, THEN conjunct2,
        THEN conjunct1, rule_format, OF _ _ l r]
    by (simp add: array_ins_simps)
  from 1 2 3 show ?thesis by simp
qed

text \<open>On an acyclic computation the traversal returns.\<close>

lemma finite_operand_rel: "finite (operand_rel c)"
proof -
  have "operand_rel c \<subseteq>
      (\<Union>u \<in> {..<length (instructions c)}.
         (case deref c u of None \<Rightarrow> {} | Some ins \<Rightarrow> set (operands ins) \<times> {u}))"
    by (auto simp: operand_rel_def uses_def deref_def split: option.splits if_splits)
  moreover have "finite (\<Union>u \<in> {..<length (instructions c)}.
         (case deref c u of None \<Rightarrow> {} | Some ins \<Rightarrow> set (operands ins) \<times> {u}))"
    by (auto split: option.splits)
  ultimately show ?thesis by (rule finite_subset)
qed

lemma operand_relI: "deref c u = Some ins \<Longrightarrow> x \<in> set (operands ins) \<Longrightarrow> (x, u) \<in> operand_rel c"
  by (simp add: operand_rel_def uses_def)

lemma GetAllReduce_returns:
  assumes "acyclic (operand_rel c)"
  shows "\<exists>r. GetAllReduce c n = Some r"
proof -
  have "wf (operand_rel c)"
    using finite_operand_rel assms by (rule finite_acyclic_wf)
  then show ?thesis
  proof (induction n rule: wf_induct_rule)
    case (less n)
    show ?case
    proof (cases "deref c n")
      case None
      then show ?thesis by (subst GetAllReduce.simps) simp
    next
      case (Some ins)
      have ih: "\<exists>r. GetAllReduce c x = Some r" if "x \<in> set (operands ins)" for x
        using less [of x] operand_relI [OF Some that] by simp
      show ?thesis
      proof (cases "operands ins")
        case Nil
        with Some show ?thesis by (subst GetAllReduce.simps) simp
      next
        case (Cons x xs)
        obtain rx where rx: "GetAllReduce c x = Some rx" using ih [of x] Cons by auto
        show ?thesis
        proof (cases xs)
          case Nil
          with Some Cons rx show ?thesis
            by (subst GetAllReduce.simps) (simp split: sum.splits)
        next
          case (Cons y zs)
          obtain ry where ry: "GetAllReduce c y = Some ry"
            using ih [of y] \<open>operands ins = x # xs\<close> Cons by auto
          from Some \<open>operands ins = x # xs\<close> Cons rx ry show ?thesis
            by (subst GetAllReduce.simps) (simp split: sum.splits)
        qed
      qed
    qed
  qed
qed

subsection \<open>Result flag and skipped indices\<close>

lemma Run_scenario_A: "Run True [2] scenario_A = Inr (True, scenario_A_rewritten)"
  by code_simp

lemma RunOnModuleGroup_example:
  "RunOnModuleGroup True [0, 1] [0, 1] (producer, consumer)
     = Inr (True, producer_delayed, consumer_delayed)"
  by code_simp

lemma relocate_example:
  "relocate ((array_ins kAllReduce F32 [1])
               \<lparr>metadata_op_name := kDelayedAllReduce, channel_id := Some 3\<rparr>)
      (array_ins kAdd F32 [0, 1]) 0 consumer 13
     = Inr (consumer_delayed_first, 14)"
  by code_simp


text \<open>
  Claim C3, as amended. With the toggle off the result is false and the module is
  unchanged. With the toggle on, a run that completes returns true, whether or not an
  index was rewritten.
\<close>

theorem Run_flag:
  "Run False indices m = Inr (False, m) \<and> (\<forall>b m'. Run True indices m = Inr (b, m') \<longrightarrow> b)"
  by (auto simp: Run_def split: sum.splits)

theorem Run_flag_witness:
  "Run False [2] scenario_A = Inr (False, scenario_A)
   \<and> Run True [2] scenario_A = Inr (True, scenario_A_rewritten)"
  using Run_flag [of "[2]" scenario_A] Run_scenario_A by simp

text \<open>
  Claim C3 as stated fails: with the toggle on and an empty index list nothing is
  rewritten, the module is unchanged, and the result is true.
\<close>

theorem Run_flag_counterexample: "Run True [] scenario_A = Inr (True, scenario_A)"
  by (simp add: Run_def)

section \<open>What every rewrite step keeps\<close>

lemma keeps_refl: "keeps n c c"
  by (simp add: keeps_def)

lemma keeps_trans: "keeps n c c1 \<Longrightarrow> keeps n c1 c2 \<Longrightarrow> keeps n c c2"
  unfolding keeps_def by fastforce

lemma grows_refl: "grows c c"
  by (simp add: grows_def keeps_refl)

lemma grows_trans: "grows c c1 \<Longrightarrow> grows c1 c2 \<Longrightarrow> grows c c2"
  unfolding grows_def using keeps_trans by (metis le_trans)

lemma grows_AddInstruction: "grows c (fst (AddInstruction c ins))"
  by (auto simp: grows_def keeps_def deref_AddInstruction)
    (auto simp: AddInstruction_def deref_def)

lemma grows_AddInstruction': "AddInstruction c ins = (c', k) \<Longrightarrow> grows c c'"
  using grows_AddInstruction [of c ins] by simp

lemma root_update_instruction:
  "root_instruction (update_instruction c n f) = root_instruction c"
  "param_instructions (update_instruction c n f) = param_instructions c"
  by (auto simp: update_instruction_def split: option.splits)

lemma grows_update_instruction:
  assumes "\<And>u. opcode (f u) = opcode u \<and> shape (f u) = shape u
              \<and> length (operands (f u)) = length (operands u)"
  shows "grows c (update_instruction c n f)"
  using assms
  by (auto simp: grows_def keeps_def deref_update_instruction root_update_instruction
      length_update_instruction)

lemma grows_ReplaceOperandWith: "grows c (ReplaceOperandWith c u i x)"
  unfolding ReplaceOperandWith_def by (rule grows_update_instruction) simp

lemma grows_set_metadata_op_name: "grows c (set_metadata_op_name c n s)"
  unfolding set_metadata_op_name_def by (rule grows_update_instruction) simp

lemma grows_ReplaceAllUsesWith: "grows c (ReplaceAllUsesWith c old new)"
  by (auto simp: grows_def keeps_def deref_RAUW redirect_def)
    (auto simp: ReplaceAllUsesWith_def)

lemma grows_MaybeConvert: "MaybeConvert c src sh = Inr (c', r) \<Longrightarrow> grows c c'"
  by (auto simp: MaybeConvert_def grows_refl split: option.splits if_splits
      dest: grows_AddInstruction')

lemma grows_MaybeReshapeConvert: "MaybeReshapeConvert c src sh = Inr (c', r) \<Longrightarrow> grows c c'"
  by (auto simp: MaybeReshapeConvert_def grows_refl split: option.splits if_splits sum.splits
      dest!: grows_AddInstruction' grows_MaybeConvert intro: grows_trans)

lemma grows_MaybeReshapeConvertList:
  "MaybeReshapeConvertList c xs ss = Inr (c', rs) \<Longrightarrow> grows c c'"
proof (induction c xs ss arbitrary: c' rs rule: MaybeReshapeConvertList.induct)
  case (2 c x xs s ss)
  from "2.prems" obtain c1 r rs1 where
    t: "MaybeReshapeConvert c x s = Inr (c1, r)"
       "MaybeReshapeConvertList c1 xs ss = Inr (c', rs1)"
    by (auto split: sum.splits)
  from grows_MaybeReshapeConvert [OF t(1)] "2.IH" [OF t(1) refl t(2)]
  show ?case by (rule grows_trans)
qed (auto simp: grows_refl)

lemma grows_MaybeReshapeConvertTuple:
  "MaybeReshapeConvertTuple c xs sh = Inr (c', rs) \<Longrightarrow> grows c c'"
  by (auto simp: MaybeReshapeConvertTuple_def split: if_splits list.splits sum.splits
      dest: grows_MaybeReshapeConvertList grows_MaybeReshapeConvert)

lemma grows_detach_loop: "detach_loop is c u a = Inr c' \<Longrightarrow> grows c c'"
proof (induction "is" c u a arbitrary: c' rule: detach_loop.induct)
  case (1 c u a)
  then show ?case by (simp add: grows_refl)
next
  case (2 i "is" c u a)
  show ?case
  proof (cases "mutable_operand c u i")
    case (Inl e)
    with 2 show ?thesis by simp
  next
    case (Inr x)
    show ?thesis
    proof (cases "x = a")
      case False
      with 2 Inr show ?thesis by simp
    next
      case True
      from 2(3) Inr True obtain src xi c1 r where
        s: "mutable_operand c a 0 = Inr src" "deref c x = Some xi"
           "MaybeReshapeConvert c src (shape xi) = Inr (c1, r)"
           "detach_loop is (ReplaceOperandWith c1 u i r) u a = Inr c'"
        by (auto split: sum.splits option.splits)
      have "grows (ReplaceOperandWith c1 u i r) c'"
        using 2(1) [OF Inr True s(1) s(2) s(3) refl s(4)] .
      with grows_MaybeReshapeConvert [OF s(3)] grows_ReplaceOperandWith [of c1 u i r]
      show ?thesis by (blast intro: grows_trans)
    qed
  qed
qed

lemma grows_detach: "detach c a = Inr c' \<Longrightarrow> grows c c'"
  by (auto simp: detach_def split: list.splits option.splits dest: grows_detach_loop)

lemma grows_reinsert:
  assumes "reinsert c i add_ins a = Inr c'"
  shows "grows c c'"
proof -
  from assms obtain ar c1 v ad c2 r where
    s: "deref c a = Some ar" "MaybeReshapeConvert c add_ins (shape ar) = Inr (c1, v)"
       "deref c1 add_ins = Some ad"
       "MaybeReshapeConvert (ReplaceOperandWith c1 a 0 v) a (shape ad) = Inr (c2, r)"
       "c' = set_metadata_op_name (ReplaceOperandWith c2 (root_instruction c2) i r) a
               kSkippableAllReduce"
    by (auto simp: reinsert_def split: option.splits sum.splits)
  have "grows c c1" using s(2) by (rule grows_MaybeReshapeConvert)
  moreover have "grows c1 (ReplaceOperandWith c1 a 0 v)" by (rule grows_ReplaceOperandWith)
  moreover have "grows (ReplaceOperandWith c1 a 0 v) c2" using s(4) by (rule grows_MaybeReshapeConvert)
  moreover have "grows c2 c'"
    unfolding s(5) using grows_ReplaceOperandWith grows_set_metadata_op_name
    by (blast intro: grows_trans)
  ultimately show ?thesis by (blast intro: grows_trans)
qed

lemma grows_fix_type_mismatch:
  assumes "fix_type_mismatch c add_ins a rm = Inr (c', rm')"
  shows "grows c c'"
proof -
  from assms obtain old ad where
    s: "deref c a = Some old" "deref c add_ins = Some ad"
    by (auto simp: fix_type_mismatch_def split: option.splits)
  show ?thesis
  proof (cases "SameElementType (shape old) (shape ad)")
    case True
    with assms s show ?thesis by (simp add: fix_type_mismatch_def grows_refl)
  next
    case False
    from assms s False obtain c1 ops c2 k c3 r where
      t: "MaybeReshapeConvertTuple c (operands old) (shape ad) = Inr (c1, ops)"
         "grows c1 c2"
         "MaybeReshapeConvert c2 k (shape old) = Inr (c3, r)"
         "c' = ReplaceAllUsesWith c3 a r"
      by (auto simp: fix_type_mismatch_def split: sum.splits prod.splits
          dest: grows_AddInstruction')
    from grows_MaybeReshapeConvertTuple [OF t(1)] t(2) grows_MaybeReshapeConvert [OF t(3)]
      grows_ReplaceAllUsesWith [of c3 a r] t(4)
    show ?thesis by (blast intro: grows_trans)
  qed
qed

lemma grows_rewrite_index:
  assumes "rewrite_index i (c, rm) = Inr (c', rm')"
  shows "grows c c'"
proof (cases "match_index c i")
  case (Inl e)
  with assms show ?thesis by (simp add: rewrite_index_def)
next
  case (Inr mt)
  show ?thesis
  proof (cases mt)
    case None
    with assms Inr show ?thesis by (simp add: rewrite_index_def grows_refl)
  next
    case (Some p)
    obtain add_ins a where p: "p = (add_ins, a)" by (cases p)
    from assms Inr Some p obtain c1 c2 where
      s: "detach c a = Inr c1" "reinsert c1 (nat i) add_ins a = Inr c2"
         "fix_type_mismatch c2 add_ins a rm = Inr (c', rm')"
      by (auto simp: rewrite_index_def split: sum.splits)
    from grows_detach [OF s(1)] grows_reinsert [OF s(2)] grows_fix_type_mismatch [OF s(3)]
    show ?thesis by (blast intro: grows_trans)
  qed
qed

lemma grows_rewrite_indices:
  "rewrite_indices is (c, rm) = Inr (c', rm') \<Longrightarrow> grows c c'"
proof (induction "is" arbitrary: c rm)
  case Nil
  then show ?case by (simp add: grows_refl)
next
  case (Cons i "is")
  from Cons.prems obtain c1 rm1 where
    s: "rewrite_index i (c, rm) = Inr (c1, rm1)" "rewrite_indices is (c1, rm1) = Inr (c', rm')"
    by (auto split: sum.splits)
  from grows_rewrite_index [OF s(1)] Cons.IH [OF s(2)] show ?case by (rule grows_trans)
qed

lemma root_kept_RemoveInstruction: "root_kept c (RemoveInstruction c n)"
  by (auto simp: root_kept_def keeps_def RemoveInstruction_def deref_def)

lemma root_kept_trans: "root_kept c c1 \<Longrightarrow> root_kept c1 c2 \<Longrightarrow> root_kept c c2"
  unfolding root_kept_def using keeps_trans by metis

lemma root_kept_foldl_RemoveInstruction: "root_kept c (foldl RemoveInstruction c ns)"
proof (induction ns arbitrary: c)
  case Nil
  then show ?case by (simp add: root_kept_def keeps_refl)
next
  case (Cons n ns)
  from root_kept_RemoveInstruction [of c n] Cons [of "RemoveInstruction c n"]
  show ?case by (auto intro: root_kept_trans)
qed

lemma grows_root_kept: "grows c c' \<Longrightarrow> root_kept c c'"
  by (simp add: grows_def root_kept_def)

lemma root_kept_Run:
  assumes "Run en is m = Inr (b, m')"
  shows "root_kept m m'"
proof (cases en)
  case False
  with assms show ?thesis by (simp add: Run_def root_kept_def keeps_refl)
next
  case True
  with assms obtain c rm where
    s: "rewrite_indices is (m, []) = Inr (c, rm)" "m' = foldl RemoveInstruction c rm"
    by (auto simp: Run_def split: sum.splits)
  from grows_root_kept [OF grows_rewrite_indices [OF s(1)]]
    root_kept_foldl_RemoveInstruction [of c rm] s(2)
  show ?thesis by (auto intro: root_kept_trans)
qed


lemma grows_rewire_loop: "rewire_loop is c u p k sh = Inr c' \<Longrightarrow> grows c c'"
proof (induction "is" c u p k sh arbitrary: c' rule: rewire_loop.induct)
  case (1 c u p k sh)
  then show ?case by (simp add: grows_refl)
next
  case (2 i "is" c u p k sh)
  show ?case
  proof (cases "mutable_operand c u i")
    case (Inl e)
    with 2 show ?thesis by simp
  next
    case (Inr x)
    show ?thesis
    proof (cases "x = p")
      case False
      with 2 Inr show ?thesis by simp
    next
      case True
      from 2(3) Inr True obtain c1 r where
        s: "MaybeReshapeConvert c k sh = Inr (c1, r)"
           "rewire_loop is (ReplaceOperandWith c1 u i r) u p k sh = Inr c'"
        by (auto split: sum.splits)
      have "grows (ReplaceOperandWith c1 u i r) c'"
        using 2(1) [OF Inr True s(1) refl s(2)] .
      with grows_MaybeReshapeConvert [OF s(1)] grows_ReplaceOperandWith [of c1 u i r]
      show ?thesis by (blast intro: grows_trans)
    qed
  qed
qed

lemma grows_rewire_users: "rewire_users us c p k sh = Inr c' \<Longrightarrow> grows c c'"
proof (induction us arbitrary: c)
  case Nil
  then show ?case by (simp add: grows_refl)
next
  case (Cons u us)
  from Cons.prems obtain ui c1 where
    s: "deref c u = Some ui" "rewire_loop [0..<length (operands ui)] c u p k sh = Inr c1"
       "rewire_users us c1 p k sh = Inr c'"
    by (auto split: option.splits sum.splits)
  from grows_rewire_loop [OF s(2)] Cons.IH [OF s(3)] show ?case by (rule grows_trans)
qed

lemma create_delayedE:
  assumes "create_delayed old ad in_index a n = Inr (c2, k, p, us, n')"
  obtains param c1 ops where
    "parameter_instruction a in_index = Inr p" "deref a p = Some param" "us = users a p"
    "SameElementType (shape ad) (shape param)"
    "MaybeReshapeConvertTuple a [p] (shape param) = Inr (c1, ops)"
    "AddInstruction c1 (delayed_allreduce old (shape param) ops n) = (c2, k)"
    "n' = (if channel_id old \<noteq> None then int64_wrap (n + 1) else n)"
proof -
  from assms obtain param where
    1: "parameter_instruction a in_index = Inr p" "deref a p = Some param"
    by (auto simp: create_delayed_def split: sum.splits option.splits if_splits prod.splits)
  from assms 1 have
    2: "SameElementType (shape ad) (shape param)"
    by (auto simp: create_delayed_def split: if_splits)
  from assms 1 2 obtain c1 ops where
    3: "MaybeReshapeConvertTuple a [p] (shape param) = Inr (c1, ops)"
    by (cases "MaybeReshapeConvertTuple a [p] (shape param)")
      (auto simp: create_delayed_def split: if_splits)
  from assms 1 2 3 have
    4: "AddInstruction c1 (delayed_allreduce old (shape param) ops n) = (c2, k)"
       "us = users a p" "n' = (if channel_id old \<noteq> None then int64_wrap (n + 1) else n)"
    by (auto simp: create_delayed_def delayed_allreduce_def split: if_splits prod.splits)
  from 1 2 3 4 that show thesis by blast
qed

lemma grows_create_delayed:
  assumes "create_delayed old ad in_index a n = Inr (c2, k, p, us, n')"
  shows "grows a c2"
  using assms
proof (rule create_delayedE)
  fix param c1 ops
  assume "MaybeReshapeConvertTuple a [p] (shape param) = Inr (c1, ops)"
    and "AddInstruction c1 (delayed_allreduce old (shape param) ops n) = (c2, k)"
  then show "grows a c2"
    using grows_MaybeReshapeConvertTuple grows_AddInstruction' grows_trans by blast
qed

lemma relocateE:
  assumes "relocate old ad in_index a n = Inr (a', n')"
  obtains c2 k p us param where
    "create_delayed old ad in_index a n = Inr (c2, k, p, us, n')"
    "deref c2 p = Some param"
    "rewire_users us c2 p k (shape param) = Inr a'"
proof -
  from assms obtain c2 k p us where
    1: "create_delayed old ad in_index a n = Inr (c2, k, p, us, n')"
    by (cases "create_delayed old ad in_index a n")
      (auto simp: relocate_def split: option.splits sum.splits)
  from assms 1 obtain param where 2: "deref c2 p = Some param"
    by (auto simp: relocate_def split: option.splits)
  from assms 1 2 have "rewire_users us c2 p k (shape param) = Inr a'"
    by (auto simp: relocate_def split: sum.splits)
  with 1 2 that show thesis by blast
qed

lemma grows_relocate:
  assumes "relocate old ad in_index a n = Inr (a', n')"
  shows "grows a a'"
  using assms
proof (rule relocateE)
  fix c2 k p us param
  assume "create_delayed old ad in_index a n = Inr (c2, k, p, us, n')"
    and "rewire_users us c2 p k (shape param) = Inr a'"
  then show "grows a a'"
    using grows_create_delayed grows_rewire_users grows_trans by blast
qed

lemma grows_delay_index:
  assumes "delay_index idx st = Inr st'"
  shows "grows (backward st) (backward st') \<and> grows (applygrad st) (applygrad st')"
proof (cases "match_index (backward st) (fst idx)")
  case (Inl e)
  with assms show ?thesis by (simp add: delay_index_def)
next
  case (Inr mt)
  show ?thesis
  proof (cases mt)
    case None
    with assms Inr show ?thesis by (auto simp: delay_index_def grows_refl)
  next
    case (Some pr)
    obtain add_ins a where pr: "pr = (add_ins, a)" by (cases pr)
    from assms Inr Some pr obtain c1 where d: "detach (backward st) a = Inr c1"
      by (auto simp: delay_index_def split: sum.splits)
    note g1 = grows_detach [OF d]
    show ?thesis
    proof (cases "snd idx = - 1")
      case True
      from assms Inr Some pr d True obtain c2 c3 rm where
        s: "reinsert c1 (nat (fst idx)) add_ins a = Inr c2"
           "fix_type_mismatch c2 add_ins a (to_remove st) = Inr (c3, rm)"
           "st' = st\<lparr>backward := c3, to_remove := rm\<rparr>"
        by (auto simp: delay_index_def split: sum.splits)
      from g1 grows_reinsert [OF s(1)] grows_fix_type_mismatch [OF s(2)]
      have "grows (backward st) c3" by (blast intro: grows_trans)
      with s(3) show ?thesis by (simp add: grows_refl)
    next
      case False
      let ?c2 = "set_metadata_op_name c1 a kDelayedAllReduce"
      from assms Inr Some pr d False obtain old ad a1 n where
        s: "relocate old ad (snd idx) (applygrad st) (next_channel_id st) = Inr (a1, n)"
           "st' = st\<lparr>backward := ?c2, applygrad := a1, next_channel_id := n,
                        to_remove := to_remove st @ [a]\<rparr>"
        by (auto simp: delay_index_def split: sum.splits option.splits)
      from g1 grows_set_metadata_op_name [of c1 a kDelayedAllReduce]
      have "grows (backward st) ?c2" by (rule grows_trans)
      with grows_relocate [OF s(1)] s(2) show ?thesis by simp
    qed
  qed
qed

lemma grows_delay_indices:
  "delay_indices idxs st = Inr st' \<Longrightarrow>
     grows (backward st) (backward st') \<and> grows (applygrad st) (applygrad st')"
proof (induction idxs arbitrary: st)
  case Nil
  then show ?case by (simp add: grows_refl)
next
  case (Cons idx idxs)
  from Cons.prems obtain st1 where
    s: "delay_index idx st = Inr st1" "delay_indices idxs st1 = Inr st'"
    by (auto split: sum.splits)
  from grows_delay_index [OF s(1)] Cons.IH [OF s(2)] show ?case
    by (blast intro: grows_trans)
qed

lemma root_kept_RunOnModuleGroup:
  assumes "RunOnModuleGroup en outs ins (bw, ag) = Inr (b, bw', ag')"
  shows "root_kept bw bw' \<and> root_kept ag ag'"
proof (cases en)
  case False
  with assms show ?thesis by (simp add: RunOnModuleGroup_def root_kept_def keeps_refl)
next
  case True
  with assms obtain st where
    s: "delay_indices (zip outs ins)
          \<lparr>backward = bw, applygrad = ag, next_channel_id = NextChannelId ag,
           to_remove = []\<rparr> = Inr st"
       "bw' = foldl RemoveInstruction (backward st) (to_remove st)" "ag' = applygrad st"
    by (auto simp: RunOnModuleGroup_def split: sum.splits if_splits)
  from grows_delay_indices [OF s(1)]
  have "grows bw (backward st)" "grows ag ag'" using s(3) by simp_all
  with root_kept_foldl_RemoveInstruction [of "backward st" "to_remove st"] s(2)
  show ?thesis by (auto intro: root_kept_trans grows_root_kept)
qed

text \<open>
  Claim C7. A run that completes, of the single-unit rewrite or of the rewrite on a module
  group, leaves the root of each entry computation the same instruction, live whenever
  it was, with the same declared shape and the same number of operands.
\<close>

theorem root_arity_and_shape_preserved:
  "(Run en indices m = Inr (b, m') \<longrightarrow>
      root_instruction m' = root_instruction m
      \<and> (\<forall>rt. deref m (root_instruction m) = Some rt \<longrightarrow>
            (\<exists>rt'. deref m' (root_instruction m') = Some rt' \<and> shape rt' = shape rt
                 \<and> length (operands rt') = length (operands rt))))
   \<and> (RunOnModuleGroup en output_indices input_indices (bw, ag) = Inr (b2, bw', ag') \<longrightarrow>
      root_instruction bw' = root_instruction bw \<and> root_instruction ag' = root_instruction ag
      \<and> (\<forall>rt. deref bw (root_instruction bw) = Some rt \<longrightarrow>
            (\<exists>rt'. deref bw' (root_instruction bw') = Some rt' \<and> shape rt' = shape rt
                 \<and> length (operands rt') = length (operands rt)))
      \<and> (\<forall>rt. deref ag (root_instruction ag) = Some rt \<longrightarrow>
            (\<exists>rt'. deref ag' (root_instruction ag') = Some rt' \<and> shape rt' = shape rt
                 \<and> length (operands rt') = length (operands rt))))"
proof (intro conjI impI)
  assume "Run en indices m = Inr (b, m')"
  then have r: "root_kept m m'" by (rule root_kept_Run)
  then show "root_instruction m' = root_instruction m" by (simp add: root_kept_def)
  from r show "\<forall>rt. deref m (root_instruction m) = Some rt \<longrightarrow>
            (\<exists>rt'. deref m' (root_instruction m') = Some rt' \<and> shape rt' = shape rt
                 \<and> length (operands rt') = length (operands rt))"
    by (auto simp: root_kept_def keeps_def)
next
  assume "RunOnModuleGroup en output_indices input_indices (bw, ag) = Inr (b2, bw', ag')"
  then have r: "root_kept bw bw'" "root_kept ag ag'"
    using root_kept_RunOnModuleGroup by blast+
  from r show "root_instruction bw' = root_instruction bw" by (simp add: root_kept_def)
  from r show "root_instruction ag' = root_instruction ag" by (simp add: root_kept_def)
  from r(1) show "\<forall>rt. deref bw (root_instruction bw) = Some rt \<longrightarrow>
            (\<exists>rt'. deref bw' (root_instruction bw') = Some rt' \<and> shape rt' = shape rt
                 \<and> length (operands rt') = length (operands rt))"
    by (auto simp: root_kept_def keeps_def)
  from r(2) show "\<forall>rt. deref ag (root_instruction ag) = Some rt \<longrightarrow>
            (\<exists>rt'. deref ag' (root_instruction ag') = Some rt' \<and> shape rt' = shape rt
                 \<and> length (operands rt') = length (operands rt))"
    by (auto simp: root_kept_def keeps_def)
qed


theorem root_arity_and_shape_preserved_witness:
  "root_instruction scenario_A_rewritten = root_instruction scenario_A
   \<and> (\<exists>rt'. deref scenario_A_rewritten (root_instruction scenario_A_rewritten) = Some rt'
          \<and> shape rt' = TupleShape [ArrayShape F32 [4], ArrayShape F32 [4], ArrayShape F32 [4]]
          \<and> length (operands rt') = 3)
   \<and> root_instruction producer_delayed = root_instruction producer
   \<and> root_instruction consumer_delayed = root_instruction consumer
   \<and> (\<exists>rt'. deref producer_delayed (root_instruction producer_delayed) = Some rt'
          \<and> shape rt' = TupleShape [ArrayShape F32 [4], ArrayShape F32 [4]]
          \<and> length (operands rt') = 2)
   \<and> (\<exists>rt'. deref consumer_delayed (root_instruction consumer_delayed) = Some rt'
          \<and> shape rt' = TupleShape [ArrayShape F32 [4], ArrayShape F32 [4]]
          \<and> length (operands rt') = 2)"
proof -
  note t = root_arity_and_shape_preserved [where en = True and indices = "[2]"
      and m = scenario_A and b = True and m' = scenario_A_rewritten
      and output_indices = "[0, 1]" and input_indices = "[0, 1]" and bw = producer
      and ag = consumer and ?b2.0 = True and bw' = producer_delayed and ag' = consumer_delayed]
  note t1 = t [THEN conjunct1, THEN mp, OF Run_scenario_A]
  note t2 = t [THEN conjunct2, THEN mp, OF RunOnModuleGroup_example]
  have a: "deref scenario_A (root_instruction scenario_A) =
      Some (new_instruction kTuple
              (TupleShape [ArrayShape F32 [4], ArrayShape F32 [4], ArrayShape F32 [4]]) [4, 4, 3])"
    by (simp add: scenario_A_def deref_def)
  have p: "deref producer (root_instruction producer) =
      Some (new_instruction kTuple (TupleShape [ArrayShape F32 [4], ArrayShape F32 [4]]) [3, 7])"
    by (simp add: producer_def deref_def)
  have c: "deref consumer (root_instruction consumer) =
      Some (new_instruction kTuple (TupleShape [ArrayShape F32 [4], ArrayShape F32 [4]]) [3, 4])"
    by (simp add: consumer_def deref_def)
  have 1: "root_instruction scenario_A_rewritten = root_instruction scenario_A"
    using t1 by (rule conjunct1)
  have 2: "\<exists>rt'. deref scenario_A_rewritten (root_instruction scenario_A_rewritten) = Some rt'
          \<and> shape rt' = TupleShape [ArrayShape F32 [4], ArrayShape F32 [4], ArrayShape F32 [4]]
          \<and> length (operands rt') = 3"
    using t1 [THEN conjunct2, rule_format, OF a] by (auto simp: new_instruction_def eval_nat_numeral)
  have 3: "root_instruction producer_delayed = root_instruction producer"
    and 4: "root_instruction consumer_delayed = root_instruction consumer"
    using t2 by simp_all
  have 5: "\<exists>rt'. deref producer_delayed (root_instruction producer_delayed) = Some rt'
          \<and> shape rt' = TupleShape [ArrayShape F32 [4], ArrayShape F32 [4]]
          \<and> length (operands rt') = 2"
    using t2 [THEN conjunct2, THEN conjunct2, THEN conjunct1, rule_format, OF p]
    by (auto simp: new_instruction_def eval_nat_numeral)
  have 6: "\<exists>rt'. deref consumer_delayed (root_instruction consumer_delayed) = Some rt'
          \<and> shape rt' = TupleShape [ArrayShape F32 [4], ArrayShape F32 [4]]
          \<and> length (operands rt') = 2"
    using t2 [THEN conjunct2, THEN conjunct2, THEN conjunct2, rule_format, OF c]
    by (auto simp: new_instruction_def eval_nat_numeral)
  from 1 2 3 4 5 6 show ?thesis by blast
qed

section \<open>Channel identifiers in the consumer unit\<close>




lemma AddInstruction_fresh: "AddInstruction c ins = (c', k) \<Longrightarrow> k = length (instructions c)"
  by (auto simp: AddInstruction_def)













lemma delay_index_applygrad:
  assumes "delay_index idx st = Inr st'"
  shows "(applygrad st' = applygrad st \<and> next_channel_id st' = next_channel_id st)
       \<or> (\<exists>old ad. relocate old ad (snd idx) (applygrad st) (next_channel_id st)
                 = Inr (applygrad st', next_channel_id st'))"
proof (cases "match_index (backward st) (fst idx)")
  case (Inl e)
  with assms show ?thesis by (simp add: delay_index_def)
next
  case (Inr mt)
  show ?thesis
  proof (cases mt)
    case None
    with assms Inr show ?thesis by (auto simp: delay_index_def)
  next
    case (Some pr)
    obtain add_ins a where pr: "pr = (add_ins, a)" by (cases pr)
    from assms Inr Some pr obtain c1 where d: "detach (backward st) a = Inr c1"
      by (auto simp: delay_index_def split: sum.splits)
    show ?thesis
    proof (cases "snd idx = - 1")
      case True
      from assms Inr Some pr d True show ?thesis
        by (auto simp: delay_index_def split: sum.splits)
    next
      case False
      from assms Inr Some pr d False show ?thesis
        by (auto simp: delay_index_def split: sum.splits option.splits)
    qed
  qed
qed






section \<open>The effect of the bridge on the arena\<close>

lemma MaybeReshapeConvert_bridged:
  assumes "MaybeReshapeConvert c src sh = Inr (c', r)"
  shows "bridged c src sh c' r"
proof -
  from assms obtain s where s: "deref c src = Some s"
    by (auto simp: MaybeReshapeConvert_def split: option.splits)
  show ?thesis
  proof (cases "Compatible (shape s) sh")
    case True
    with assms s have "c' = c" "r = src" by (simp_all add: MaybeReshapeConvert_def)
    then show ?thesis
      unfolding bridged_def by (intro exI [of _ "[]"]) simp
  next
    case nc: False
    show ?thesis
    proof (cases "SameElementType (shape s) sh")
      case True
      with assms s nc have
        "c' = c\<lparr>instructions := instructions c @ [Some (CreateReshape sh src)]\<rparr>"
        "r = length (instructions c)"
        by (simp_all add: MaybeReshapeConvert_def MaybeConvert_def AddInstruction_def)
      then show ?thesis
        unfolding bridged_def
        by (intro exI [of _ "[CreateReshape sh src]"])
          (simp add: CreateReshape_def new_instruction_def)
    next
      case False
      let ?cv = "CreateConvert (ChangeElementType (shape s) (element_type sh)) src"
      let ?rs = "CreateReshape sh (length (instructions c))"
      from False assms s nc have
        "c' = c\<lparr>instructions := instructions c @ [Some ?cv, Some ?rs]\<rparr>"
        "r = Suc (length (instructions c))"
        by (simp_all add: MaybeReshapeConvert_def MaybeConvert_def AddInstruction_def)
      then show ?thesis
        unfolding bridged_def
        by (intro exI [of _ "[?cv, ?rs]"])
          (auto simp: CreateReshape_def CreateConvert_def new_instruction_def less_Suc_eq)
    qed
  qed
qed

lemma bridged_old:
  "bridged c src sh c' r \<Longrightarrow> j < length (instructions c) \<Longrightarrow> deref c' j = deref c j"
  by (auto simp: bridged_def deref_def nth_append)


lemma bridged_length:
  "bridged c src sh c' r \<Longrightarrow>
     length (instructions c) \<le> length (instructions c')
     \<and> length (instructions c') \<le> length (instructions c) + 2"
  by (auto simp: bridged_def)

lemma bridged_fresh:
  assumes "bridged c src sh c' r" "length (instructions c) \<le> j" "j < length (instructions c')"
  shows "\<exists>ins x. deref c' j = Some ins \<and> (opcode ins = kConvert \<or> opcode ins = kReshape)
           \<and> channel_id ins = None \<and> operands ins = [x]
           \<and> (x = src \<or> (length (instructions c) \<le> x \<and> x < j))"
proof -
  from assms(1) obtain new where
    n: "c' = c\<lparr>instructions := instructions c @ map Some new\<rparr>"
       "\<forall>i < length new.
              (opcode (new ! i) = kConvert \<or> opcode (new ! i) = kReshape)
              \<and> channel_id (new ! i) = None
              \<and> operands (new ! i) = [if i = 0 then src else length (instructions c) + i - 1]"
    unfolding bridged_def by blast
  let ?i = "j - length (instructions c)"
  from assms(2,3) n(1) have i: "?i < length new" by simp
  with assms(2) n(1) have d: "deref c' j = Some (new ! ?i)"
    by (simp add: deref_def nth_append)
  from n(2) i have p: "(opcode (new ! ?i) = kConvert \<or> opcode (new ! ?i) = kReshape)
      \<and> channel_id (new ! ?i) = None
      \<and> operands (new ! ?i) = [if ?i = 0 then src else length (instructions c) + ?i - 1]"
    by blast
  show ?thesis
  proof (cases "?i = 0")
    case True
    with d p show ?thesis by auto
  next
    case False
    with assms(2) have "length (instructions c) \<le> length (instructions c) + ?i - 1"
      "length (instructions c) + ?i - 1 < j" by simp_all
    with d p False show ?thesis by auto
  qed
qed

lemma bridged_result:
  assumes "bridged c src sh c' r"
  shows "(r = src \<and> c' = c)
       \<or> (length (instructions c) \<le> r \<and> Suc r = length (instructions c')
            \<and> (\<exists>ins. deref c' r = Some ins \<and> shape ins = sh))"
proof -
  from assms obtain new where
    n: "c' = c\<lparr>instructions := instructions c @ map Some new\<rparr>"
       "new = [] \<longrightarrow> r = src"
       "new \<noteq> [] \<longrightarrow> r = length (instructions c) + length new - 1 \<and> shape (last new) = sh"
    unfolding bridged_def by blast
  show ?thesis
  proof (cases "new = []")
    case True
    with n show ?thesis by simp
  next
    case False
    with n have r: "r = length (instructions c) + length new - 1" "shape (last new) = sh"
      by simp_all
    from False obtain i where i: "length new = Suc i" by (cases new) auto
    with r(1) have r': "r = length (instructions c) + i" by simp
    have "deref c' r = Some (new ! i)"
      unfolding r' n(1) using i by (simp add: deref_def nth_append)
    moreover have "shape (new ! i) = sh"
      using r(2) False i by (simp add: last_conv_nth)
    moreover have "length (instructions c) \<le> r" "Suc r = length (instructions c')"
      using i unfolding r' n(1) by simp_all
    ultimately show ?thesis by blast
  qed
qed






section \<open>Acyclicity of the consumer unit\<close>

lemma acyclic_of_ranked:
  assumes "ranked rk c"
  shows "acyclic (operand_rel c)"
proof -
  have "operand_rel c \<subseteq> inv_image less_than rk"
    using assms by (auto simp: operand_rel_def uses_def ranked_def split: option.splits)
  then have "wf (operand_rel c)"
    by (rule wf_subset [OF wf_inv_image [OF wf_less_than]])
  then show ?thesis by (rule wf_acyclic)
qed

lemma ranked_of_acyclic:
  assumes "acyclic (operand_rel c)"
  shows "\<exists>rk. ranked rk c"
proof -
  let ?r = "operand_rel c"
  let ?below = "\<lambda>x. {z. (z, x) \<in> ?r\<^sup>+}"
  have fin: "finite (?below x)" for x
  proof -
    have "finite (?r\<^sup>+)" using finite_operand_rel by simp
    then have "finite (fst ` (?r\<^sup>+))" by simp
    moreover have "?below x \<subseteq> fst ` (?r\<^sup>+)" by force
    ultimately show ?thesis by (rule rev_finite_subset)
  qed
  have "card (?below x) < card (?below u)" if "(x, u) \<in> ?r" for x u
  proof (rule psubset_card_mono [OF fin])
    have "?below x \<subseteq> ?below u" using that by (auto intro: trancl_into_trancl)
    moreover have "x \<in> ?below u" using that by auto
    moreover have "x \<notin> ?below x" using assms by (auto simp: acyclic_def)
    ultimately show "?below x \<subset> ?below u" by blast
  qed
  then have "ranked (\<lambda>x. card (?below x)) c"
    by (auto simp: ranked_def intro: operand_relI)
  then show ?thesis by blast
qed

lemma MaybeReshapeConvertTuple_single:
  assumes "MaybeReshapeConvertTuple c [x] sh = Inr (c', ops)"
  shows "\<exists>r sh'. ops = [r] \<and> bridged c x sh' c' r"
proof (cases "IsTuple sh")
  case True
  with assms obtain s' where s': "tuple_shapes sh = [s']"
    "MaybeReshapeConvertList c [x] [s'] = Inr (c', ops)"
    by (cases "tuple_shapes sh"; cases "tl (tuple_shapes sh)")
      (auto simp: MaybeReshapeConvertTuple_def split: if_splits)
  then obtain r where "MaybeReshapeConvert c x s' = Inr (c', r)" "ops = [r]"
    by (auto split: sum.splits)
  then show ?thesis using MaybeReshapeConvert_bridged by blast
next
  case False
  with assms obtain r where "MaybeReshapeConvert c x sh = Inr (c', r)" "ops = [r]"
    by (auto simp: MaybeReshapeConvertTuple_def split: if_splits sum.splits)
  then show ?thesis using MaybeReshapeConvert_bridged by blast
qed

lemma rewired_refl: "rewired k U c c"
  by (auto simp: rewired_def)

lemma rewired_trans:
  assumes "rewired k U c c1" "rewired k U c1 c2"
  shows "rewired k U c c2"
  unfolding rewired_def
proof (intro conjI allI impI)
  show "length (instructions c2) = length (instructions c)"
    using assms by (simp add: rewired_def)
  fix j
  show "deref c2 j = deref c j" if "j \<notin> U"
    using assms that by (simp add: rewired_def)
  fix ins2
  assume "deref c2 j = Some ins2"
  with assms(2) obtain ins1 where
    1: "deref c1 j = Some ins1" "set (operands ins2) \<subseteq> insert k (set (operands ins1))"
    unfolding rewired_def by blast
  with assms(1) obtain ins where
    2: "deref c j = Some ins" "set (operands ins1) \<subseteq> insert k (set (operands ins))"
    unfolding rewired_def by blast
  from 1(2) 2 show "\<exists>ins. deref c j = Some ins
      \<and> set (operands ins2) \<subseteq> insert k (set (operands ins))"
    by blast
qed

lemma rewired_ReplaceOperandWith: "u \<in> U \<Longrightarrow> rewired k U c (ReplaceOperandWith c u i k)"
  unfolding rewired_def ReplaceOperandWith_def
  using set_update_subset_insert [of _ i k]
  by (auto simp: deref_update_instruction length_update_instruction)

lemma MaybeReshapeConvert_noop:
  "deref c k = Some nk \<Longrightarrow> Compatible (shape nk) sh \<Longrightarrow> MaybeReshapeConvert c k sh = Inr (c, k)"
  by (simp add: MaybeReshapeConvert_def)

lemma rewire_loop_rewired:
  assumes "rewire_loop is c u p k sh = Inr c'" "u \<in> U" "k \<notin> U"
    "deref c k = Some nk" "Compatible (shape nk) sh"
  shows "rewired k U c c'"
  using assms
proof (induction "is" c u p k sh arbitrary: c' rule: rewire_loop.induct)
  case (1 c u p k sh)
  then show ?case by (simp add: rewired_refl)
next
  case (2 i "is" c u p k sh)
  show ?case
  proof (cases "mutable_operand c u i")
    case (Inl e)
    with 2 show ?thesis by simp
  next
    case (Inr x)
    show ?thesis
    proof (cases "x = p")
      case False
      with 2 Inr show ?thesis by simp
    next
      case True
      let ?c2 = "ReplaceOperandWith c u i k"
      have m: "MaybeReshapeConvert c k sh = Inr (c, k)"
        using "2.prems"(4,5) by (rule MaybeReshapeConvert_noop)
      with "2.prems"(1) Inr True have l: "rewire_loop is ?c2 u p k sh = Inr c'" by simp
      have r: "rewired k U c ?c2" using "2.prems"(2) by (rule rewired_ReplaceOperandWith)
      with "2.prems"(3,4) have "deref ?c2 k = Some nk" by (simp add: rewired_def)
      from "2.IH"(1) [OF Inr True m refl l "2.prems"(2,3) this "2.prems"(5)] r
      show ?thesis by (blast intro: rewired_trans)
    qed
  qed
qed

lemma rewire_users_rewired:
  assumes "rewire_users us c p k sh = Inr c'" "set us \<subseteq> U" "k \<notin> U"
    "deref c k = Some nk" "Compatible (shape nk) sh"
  shows "rewired k U c c'"
  using assms
proof (induction us arbitrary: c)
  case Nil
  then show ?case by (simp add: rewired_refl)
next
  case (Cons u us)
  from Cons.prems(1) obtain ui c1 where
    s: "deref c u = Some ui" "rewire_loop [0..<length (operands ui)] c u p k sh = Inr c1"
       "rewire_users us c1 p k sh = Inr c'"
    by (auto split: option.splits sum.splits)
  from Cons.prems(2) have u: "u \<in> U" "set us \<subseteq> U" by simp_all
  have r: "rewired k U c c1"
    using s(2) u(1) Cons.prems(3,4,5) by (rule rewire_loop_rewired)
  with Cons.prems(3,4) have "deref c1 k = Some nk" by (simp add: rewired_def)
  from Cons.IH [OF s(3) u(2) Cons.prems(3) this Cons.prems(5)] r
  show ?case by (blast intro: rewired_trans)
qed


lemma fresh_chain_path:
  assumes "\<And>j. L \<le> j \<Longrightarrow> j < K \<Longrightarrow>
      \<exists>ins x. deref c j = Some ins \<and> (opcode ins = kConvert \<or> opcode ins = kReshape)
        \<and> operands ins = [x] \<and> (x = src \<or> (L \<le> x \<and> x < j))"
  shows "L \<le> j \<Longrightarrow> j < K \<Longrightarrow> bridge_path c j src"
proof (induction j rule: less_induct)
  case (less j)
  from assms [OF less.prems] obtain ins x where
    i: "deref c j = Some ins" "opcode ins = kConvert \<or> opcode ins = kReshape"
       "operands ins = [x]" "x = src \<or> (L \<le> x \<and> x < j)"
    by blast
  have "bridge_path c x src"
  proof (cases "x = src")
    case True
    then show ?thesis by (simp add: bridge_path.here)
  next
    case False
    with i(4) less.prems(2) show ?thesis by (intro less.IH) auto
  qed
  with i(1,2,3) show ?case by (rule bridge_path.through)
qed

lemma users_uses: "u \<in> set (users c x) \<longleftrightarrow> u < length (instructions c) \<and> uses c x u"
  by (auto simp: users_def)

text \<open>
  The shape of the consumer unit after a relocation: the old slots \<open>j < L\<close>, rewired;
  the bridge nodes \<open>L \<le> j < k\<close> from the parameter; the new all-reduce \<open>k\<close>.
\<close>

lemma relocate_structure:
  assumes "relocate old ad in_index a n = Inr (a', n')"
  obtains p k new v where
    "parameter_instruction a in_index = Inr p" "p < length (instructions a)"
    "length (instructions a) \<le> k" "k \<le> length (instructions a) + 2"
    "length (instructions a') = Suc k"
    "\<And>j ins'. j < length (instructions a) \<Longrightarrow> deref a' j = Some ins' \<Longrightarrow>
        \<exists>ins. deref a j = Some ins \<and> set (operands ins') \<subseteq> insert k (set (operands ins))
           \<and> (\<not> uses a p j \<longrightarrow> ins' = ins)"
    "\<And>j. length (instructions a) \<le> j \<Longrightarrow> j < k \<Longrightarrow>
        \<exists>ins x. deref a' j = Some ins \<and> (opcode ins = kConvert \<or> opcode ins = kReshape)
          \<and> operands ins = [x] \<and> (x = p \<or> (length (instructions a) \<le> x \<and> x < j))"
    "deref a' k = Some new" "opcode new = kAllReduce" "operands new = [v]"
    "v = p \<or> (length (instructions a) \<le> v \<and> v < k)"
  using assms
proof (rule relocateE)
  fix c2 k p us param2
  assume cd: "create_delayed old ad in_index a n = Inr (c2, k, p, us, n')"
    and dp2: "deref c2 p = Some param2"
    and rw: "rewire_users us c2 p k (shape param2) = Inr a'"
  from cd show thesis
  proof (rule create_delayedE)
    fix param c1 ops
    assume pi: "parameter_instruction a in_index = Inr p"
      and dp: "deref a p = Some param" and us: "us = users a p"
      and m: "MaybeReshapeConvertTuple a [p] (shape param) = Inr (c1, ops)"
      and ad: "AddInstruction c1 (delayed_allreduce old (shape param) ops n) = (c2, k)"
    let ?L = "length (instructions a)"
    let ?U = "set (users a p)"
    from MaybeReshapeConvertTuple_single [OF m] obtain v sh' where
      v: "ops = [v]" "bridged a p sh' c1 v" by blast
    let ?new = "delayed_allreduce old (shape param) [v] n"
    have pL: "p < ?L" using dp by (auto simp: deref_def split: if_splits)
    have k: "k = length (instructions c1)" using ad by (rule AddInstruction_fresh)
    have c2: "c2 = fst (AddInstruction c1 ?new)" using ad v(1) by simp
    note bl = bridged_length [OF v(2)]
    have Lk: "?L \<le> k" "k \<le> ?L + 2" using bl k by simp_all
    have d2: "deref c2 j = (if j = k then Some ?new else deref c1 j)" for j
      unfolding c2 k by (rule deref_AddInstruction)
    have len2: "length (instructions c2) = Suc k"
      unfolding c2 k by (rule length_AddInstruction)
    have "deref c2 p = deref a p" using pL Lk(1) bridged_old [OF v(2) pL] by (simp add: d2)
    with dp dp2 have sh: "shape param2 = shape param" by simp
    have kU: "k \<notin> ?U" using Lk(1) by (auto simp: users_uses)
    have "Compatible (shape ?new) (shape param2)"
      unfolding sh by (simp add: delayed_allreduce_def CreateAllReduce_def Compatible_refl)
    with rw us kU d2 [of k] have rew: "rewired k ?U c2 a'"
      by (intro rewire_users_rewired [where nk = ?new and us = us]) simp_all
    have len: "length (instructions a') = Suc k" using rew len2 by (simp add: rewired_def)
    have old: "\<exists>ins. deref a j = Some ins \<and> set (operands ins') \<subseteq> insert k (set (operands ins))
           \<and> (\<not> uses a p j \<longrightarrow> ins' = ins)"
      if j: "j < ?L" "deref a' j = Some ins'" for j ins'
    proof -
      from rew j(2) obtain ins where
        i: "deref c2 j = Some ins" "set (operands ins') \<subseteq> insert k (set (operands ins))"
        unfolding rewired_def by blast
      have e: "deref c2 j = deref a j" using j(1) Lk(1) bridged_old [OF v(2) j(1)] by (simp add: d2)
      have "ins' = ins" if "\<not> uses a p j"
      proof -
        from that have "j \<notin> ?U" by (simp add: users_uses)
        with rew have "deref a' j = deref c2 j" by (simp add: rewired_def)
        with j(2) i(1) show ?thesis by simp
      qed
      with i e show ?thesis by auto
    qed
    have fresh: "\<exists>ins x. deref a' j = Some ins \<and> (opcode ins = kConvert \<or> opcode ins = kReshape)
          \<and> operands ins = [x] \<and> (x = p \<or> (?L \<le> x \<and> x < j))"
      if j: "?L \<le> j" "j < k" for j
    proof -
      from j have "j \<notin> ?U" by (auto simp: users_uses)
      with rew have "deref a' j = deref c2 j" by (simp add: rewired_def)
      also have "\<dots> = deref c1 j" using j(2) by (simp add: d2)
      finally have e: "deref a' j = deref c1 j" .
      from bridged_fresh [OF v(2) j(1)] j(2) k show ?thesis unfolding e by blast
    qed
    have dk: "deref a' k = Some ?new"
      using rew kU d2 [of k] by (simp add: rewired_def)
    have v': "v = p \<or> (?L \<le> v \<and> v < k)"
      using bridged_result [OF v(2)] k by auto
    show thesis
      by (rule that [OF pi pL Lk len old fresh dk _ _ v'])
        (simp_all add: delayed_allreduce_def CreateAllReduce_def)
  qed
qed


lemma relocate_well_formed:
  assumes r: "relocate old ad in_index a n = Inr (a', n')"
    and ir: "operands_in_range a" and ac: "acyclic (operand_rel a)"
  shows "operands_in_range a' \<and> acyclic (operand_rel a')"
  using r
proof (rule relocate_structure)
  fix p k new v
  let ?L = "length (instructions a)"
  assume pL: "p < ?L" and Lk: "?L \<le> k" "k \<le> ?L + 2"
    and len: "length (instructions a') = Suc k"
    and old: "\<And>j ins'. j < ?L \<Longrightarrow> deref a' j = Some ins' \<Longrightarrow>
        \<exists>ins. deref a j = Some ins \<and> set (operands ins') \<subseteq> insert k (set (operands ins))
           \<and> (\<not> uses a p j \<longrightarrow> ins' = ins)"
    and fresh: "\<And>j. ?L \<le> j \<Longrightarrow> j < k \<Longrightarrow>
        \<exists>ins x. deref a' j = Some ins \<and> (opcode ins = kConvert \<or> opcode ins = kReshape)
          \<and> operands ins = [x] \<and> (x = p \<or> (?L \<le> x \<and> x < j))"
    and dk: "deref a' k = Some new" "operands new = [v]" "v = p \<or> (?L \<le> v \<and> v < k)"
  from ranked_of_acyclic [OF ac] obtain rk where rk: "ranked rk a" ..
  define rk' where "rk' j = (if j < ?L then 4 * rk j else 4 * rk p + 1 + (j - ?L))" for j
  have rkp: "rk' p = 4 * rk p" using pL by (simp add: rk'_def)
  have edge: "x < Suc k \<and> rk' x < rk' u"
    if u: "deref a' u = Some ins'" and x: "x \<in> set (operands ins')" for u ins' x
  proof -
    from u len have uk: "u < Suc k" by (auto simp: deref_def split: if_splits)
    consider "u < ?L" | "?L \<le> u" "u < k" | "u = k" using uk by linarith
    then show ?thesis
    proof cases
      case 1
      from old [OF 1 u] obtain ins where
        i: "deref a u = Some ins" "set (operands ins') \<subseteq> insert k (set (operands ins))"
           "\<not> uses a p u \<longrightarrow> ins' = ins"
        by blast
      show ?thesis
      proof (cases "x \<in> set (operands ins)")
        case True
        with ir i(1) have "x < ?L" unfolding operands_in_range_def by blast
        moreover from rk i(1) True have "rk x < rk u" unfolding ranked_def by blast
        ultimately show ?thesis using 1 Lk(1) by (simp add: rk'_def)
      next
        case False
        with x i(2) have xk: "x = k" by blast
        from False x i(3) have "uses a p u" by blast
        with i(1) have "p \<in> set (operands ins)" by (simp add: uses_def)
        with rk i(1) have "rk p < rk u" unfolding ranked_def by blast
        with xk 1 Lk show ?thesis by (simp add: rk'_def)
      qed
    next
      case 2
      from fresh [OF 2] u x have "x = p \<or> (?L \<le> x \<and> x < u)" by auto
      with 2 pL Lk(1) show ?thesis by (auto simp: rk'_def)
    next
      case 3
      with u x dk have "x = p \<or> (?L \<le> x \<and> x < k)" by auto
      with 3 pL Lk(1) show ?thesis by (auto simp: rk'_def)
    qed
  qed
  have "operands_in_range a'"
    unfolding operands_in_range_def len using edge by blast
  moreover have "ranked rk' a'"
    unfolding ranked_def using edge by blast
  ultimately show ?thesis using acyclic_of_ranked by blast
qed

lemma relocate_collective:
  assumes r: "relocate old ad in_index a n = Inr (a', n')"
  shows "\<exists>p k new v. parameter_instruction a in_index = Inr p
           \<and> length (instructions a) \<le> k \<and> k \<notin> set (users a p)
           \<and> deref a' k = Some new \<and> opcode new = kAllReduce \<and> operands new = [v]
           \<and> v \<noteq> k \<and> bridge_path a' v p"
  using r
proof (rule relocate_structure)
  fix p k new v
  let ?L = "length (instructions a)"
  assume pi: "parameter_instruction a in_index = Inr p"
    and pL: "p < ?L" and Lk: "?L \<le> k"
    and fresh: "\<And>j. ?L \<le> j \<Longrightarrow> j < k \<Longrightarrow>
        \<exists>ins x. deref a' j = Some ins \<and> (opcode ins = kConvert \<or> opcode ins = kReshape)
          \<and> operands ins = [x] \<and> (x = p \<or> (?L \<le> x \<and> x < j))"
    and dk: "deref a' k = Some new" "opcode new = kAllReduce" "operands new = [v]"
      "v = p \<or> (?L \<le> v \<and> v < k)"
  have "bridge_path a' v p"
  proof (cases "v = p")
    case True
    then show ?thesis by (simp add: bridge_path.here)
  next
    case False
    with dk(4) have "?L \<le> v" "v < k" by simp_all
    with fresh show ?thesis by (intro fresh_chain_path [where L = ?L and K = k]) auto
  qed
  moreover have "v \<noteq> k" using dk(4) pL Lk by auto
  moreover have "k \<notin> set (users a p)" using Lk by (auto simp: users_uses)
  ultimately show ?thesis using pi Lk dk(1,2,3) by blast
qed

lemma delay_indices_well_formed:
  "delay_indices idxs st = Inr st' \<Longrightarrow>
   operands_in_range (applygrad st) \<and> acyclic (operand_rel (applygrad st)) \<Longrightarrow>
   operands_in_range (applygrad st') \<and> acyclic (operand_rel (applygrad st'))"
proof (induction idxs arbitrary: st)
  case Nil
  then show ?case by simp
next
  case (Cons idx idxs)
  from Cons.prems(1) obtain st1 where
    s: "delay_index idx st = Inr st1" "delay_indices idxs st1 = Inr st'"
    by (auto split: sum.splits)
  have "operands_in_range (applygrad st1) \<and> acyclic (operand_rel (applygrad st1))"
    using delay_index_applygrad [OF s(1)] Cons.prems(2) relocate_well_formed by auto
  with Cons.IH [OF s(2)] show ?case .
qed

text \<open>
  Claim C10. The consumers of the parameter that the relocation rewires are the users the
  parameter had before the new collective was added, so the new collective \<open>k\<close> is not
  among them: after the relocation it still has one operand, which is not \<open>k\<close> and leads
  to the parameter through bridge nodes only. When every operand of the consumer unit
  is one of its slots and its operand relation is acyclic, a relocation, and so a whole
  run on a module group, leaves it so.
\<close>

theorem relocation_keeps_acyclic:
  "(relocate old ad in_index a n = Inr (a', n') \<longrightarrow>
      (\<exists>p k new v. parameter_instruction a in_index = Inr p
          \<and> length (instructions a) \<le> k \<and> k \<notin> set (users a p)
          \<and> deref a' k = Some new \<and> opcode new = kAllReduce \<and> operands new = [v]
          \<and> v \<noteq> k \<and> bridge_path a' v p)
      \<and> (operands_in_range a \<and> acyclic (operand_rel a) \<longrightarrow>
           operands_in_range a' \<and> acyclic (operand_rel a')))
   \<and> (RunOnModuleGroup en output_indices input_indices (bw, ag) = Inr (b, bw', ag') \<longrightarrow>
        operands_in_range ag \<and> acyclic (operand_rel ag) \<longrightarrow>
        operands_in_range ag' \<and> acyclic (operand_rel ag'))"
proof (intro conjI impI)
  assume "relocate old ad in_index a n = Inr (a', n')"
  then show "\<exists>p k new v. parameter_instruction a in_index = Inr p
          \<and> length (instructions a) \<le> k \<and> k \<notin> set (users a p)
          \<and> deref a' k = Some new \<and> opcode new = kAllReduce \<and> operands new = [v]
          \<and> v \<noteq> k \<and> bridge_path a' v p"
    by (rule relocate_collective)
next
  assume "relocate old ad in_index a n = Inr (a', n')"
    "operands_in_range a \<and> acyclic (operand_rel a)"
  then show "operands_in_range a'" "acyclic (operand_rel a')"
    using relocate_well_formed by blast+
next
  assume run: "RunOnModuleGroup en output_indices input_indices (bw, ag) = Inr (b, bw', ag')"
    and wf: "operands_in_range ag \<and> acyclic (operand_rel ag)"
  have "operands_in_range ag' \<and> acyclic (operand_rel ag')"
  proof (cases en)
    case False
    with run wf show ?thesis by (simp add: RunOnModuleGroup_def)
  next
    case True
    with run obtain st where
      s: "delay_indices (zip output_indices input_indices)
            \<lparr>backward = bw, applygrad = ag, next_channel_id = NextChannelId ag,
             to_remove = []\<rparr> = Inr st"
         "ag' = applygrad st"
      by (auto simp: RunOnModuleGroup_def split: sum.splits if_splits)
    from delay_indices_well_formed [OF s(1)] wf s(2) show ?thesis by simp
  qed
  then show "operands_in_range ag'" "acyclic (operand_rel ag')" by simp_all
qed

lemma consumer_well_formed: "operands_in_range consumer \<and> acyclic (operand_rel consumer)"
proof -
  have d: "deref consumer u = Some ins \<Longrightarrow> x \<in> set (operands ins) \<Longrightarrow> x < u \<and> x < 6"
    for u ins x
    by (auto simp: deref_def consumer_def array_ins_def new_instruction_def nth_Cons
        split: if_splits nat.splits)
  have "ranked (\<lambda>x. x) consumer" unfolding ranked_def using d by blast
  moreover have len: "length (instructions consumer) = 6" by (simp add: consumer_def)
  have "operands_in_range consumer"
    unfolding operands_in_range_def len using d by blast
  ultimately show ?thesis using acyclic_of_ranked by blast
qed

theorem relocation_keeps_acyclic_witness:
  "(\<exists>k new v. 6 \<le> k \<and> deref consumer_delayed_first k = Some new \<and> opcode new = kAllReduce
       \<and> operands new = [v] \<and> v \<noteq> k \<and> bridge_path consumer_delayed_first v 0)
   \<and> operands_in_range consumer_delayed_first \<and> acyclic (operand_rel consumer_delayed_first)
   \<and> operands_in_range consumer_delayed \<and> acyclic (operand_rel consumer_delayed)"
proof -
  note t = relocation_keeps_acyclic [of
      "(array_ins kAllReduce F32 [1])\<lparr>metadata_op_name := kDelayedAllReduce, channel_id := Some 3\<rparr>"
      "array_ins kAdd F32 [0, 1]" 0 consumer 13 consumer_delayed_first 14
      True "[0, 1]" "[0, 1]" producer consumer True producer_delayed consumer_delayed]
  have len: "length (instructions consumer) = 6" by (simp add: consumer_def)
  have pi: "parameter_instruction consumer 0 = Inr 0"
    by (simp add: parameter_instruction_def consumer_def)
  note t1 = t [THEN conjunct1, THEN mp, OF relocate_example]
  note t2 = t [THEN conjunct2, THEN mp, OF RunOnModuleGroup_example, THEN mp,
      OF consumer_well_formed]
  from t1 [THEN conjunct1] have 1: "\<exists>k new v. 6 \<le> k
       \<and> deref consumer_delayed_first k = Some new \<and> opcode new = kAllReduce
       \<and> operands new = [v] \<and> v \<noteq> k \<and> bridge_path consumer_delayed_first v 0"
    unfolding len pi by auto
  from t1 [THEN conjunct2, THEN mp, OF consumer_well_formed] t2 1 show ?thesis by blast
qed

section \<open>The single-unit rewrite of one matched index\<close>

subsection \<open>What the chain matcher finds\<close>





subsection \<open>Steps that keep the bridge nodes\<close>

lemma bridges_kept_refl: "bridges_kept c c"
  by (simp add: bridges_kept_def)








subsection \<open>Detaching the collective\<close>









subsection \<open>Reinserting the collective after the Add\<close>







subsection \<open>Rebuilding the collective when the element types differ\<close>






subsection \<open>The rewrite of one matched index\<close>






section \<open>The relocation of one matched index pair\<close>

subsection \<open>The relocation completes\<close>





subsection \<open>Channel identifiers after a run\<close>





section \<open>Requested indices that are not rewritten\<close>

lemma match_index_out_of_range:
  assumes "deref c (root_instruction c) = Some rt" "i < 0 \<or> int (length (operands rt)) \<le> i"
  shows "match_index c i = Inl OutOfRange"
  using assms by (auto simp: match_index_def mutable_operand_at_def mutable_operand_def)

lemma rewrite_indices_out_of_range:
  assumes "deref c (root_instruction c) = Some rt" "i < 0 \<or> int (length (operands rt)) \<le> i"
    "i \<in> set is"
  shows "\<exists>e. rewrite_indices is (c, rm) = Inl e"
  using assms
proof (induction "is" arbitrary: c rm rt)
  case Nil
  then show ?case by simp
next
  case (Cons i' "is")
  show ?case
  proof (cases "rewrite_index i' (c, rm)")
    case (Inl e)
    then show ?thesis by simp
  next
    case (Inr st1)
    obtain c1 rm1 where st1: "st1 = (c1, rm1)" by (cases st1)
    from match_index_out_of_range [OF Cons.prems(1,2)]
    have "rewrite_index i (c, rm) = Inl OutOfRange" by (simp add: rewrite_index_def)
    with Inr have "i' \<noteq> i" by auto
    with Cons.prems(3) have mem: "i \<in> set is" by simp
    from Inr st1 have "grows c c1" using grows_rewrite_index by simp
    with Cons.prems(1) obtain rt1 where
      "deref c1 (root_instruction c1) = Some rt1" "length (operands rt1) = length (operands rt)"
      unfolding grows_def keeps_def by metis
    with Cons.IH [of c1 rt1 rm1] Cons.prems(2) mem Inr st1 show ?thesis by simp
  qed
qed

text \<open>
  Claim C6 as stated fails: the output tuple of scenario A has three operands, and the
  requested index 5 is read from the operand vector without a range check.
\<close>

theorem Run_out_of_range_counterexample: "Run True [5] scenario_A = Inl OutOfRange"
  by code_simp

text \<open>
  Claim C6, as amended. For a requested index inside the output tuple whose operand is
  live: when that operand is not an Add, or the chain matcher finds no collective from
  the Add's operand 1, or the matched collective does not have exactly one user, the
  index changes nothing, the run goes on with the remaining indices, and a run of that
  index alone returns true with the module unchanged. For a requested index outside the
  output tuple, negative or not below the number of its operands: the index is not
  skipped, reading the operand vector at it is an out-of-range access that ends the run,
  and no run with the toggle on whose index list contains that index completes.
\<close>

theorem soft_mismatch_skipped:
  "(mutable_operand_at m (root_instruction m) i = Inr add_ins \<longrightarrow>
    deref m add_ins = Some ad \<longrightarrow>
    opcode ad \<noteq> kAdd
      \<or> (\<exists>x. mutable_operand m add_ins 1 = Inr x
           \<and> (GetAllReduce m x = Some (Inr None)
              \<or> (\<exists>ar. GetAllReduce m x = Some (Inr (Some ar)) \<and> length (users m ar) \<noteq> 1))) \<longrightarrow>
      rewrite_index i (m, pending) = Inr (m, pending)
    \<and> Run True (i # rest) m = Run True rest m
    \<and> Run True [i] m = Inr (True, m))
   \<and> (deref m (root_instruction m) = Some rt \<longrightarrow>
      i < 0 \<or> int (length (operands rt)) \<le> i \<longrightarrow>
        rewrite_index i (m, pending) = Inl OutOfRange
      \<and> Run True (i # rest) m = Inl OutOfRange
      \<and> (i \<in> set indices \<longrightarrow> (\<exists>e. Run True indices m = Inl e)))"
proof (intro conjI impI)
  assume a: "mutable_operand_at m (root_instruction m) i = Inr add_ins"
    "deref m add_ins = Some ad"
    "opcode ad \<noteq> kAdd
      \<or> (\<exists>x. mutable_operand m add_ins 1 = Inr x
           \<and> (GetAllReduce m x = Some (Inr None)
              \<or> (\<exists>ar. GetAllReduce m x = Some (Inr (Some ar)) \<and> length (users m ar) \<noteq> 1)))"
  have "match_index m i = Inr None"
    using a by (auto simp: match_index_def)
  then have r: "rewrite_index i (m, rm) = Inr (m, rm)" for rm
    by (simp add: rewrite_index_def)
  from r show "rewrite_index i (m, pending) = Inr (m, pending)" .
  from r show "Run True (i # rest) m = Run True rest m" by (simp add: Run_def)
  from r show "Run True [i] m = Inr (True, m)" by (simp add: Run_def)
next
  assume b: "deref m (root_instruction m) = Some rt" "i < 0 \<or> int (length (operands rt)) \<le> i"
  from match_index_out_of_range [OF b]
  have r: "rewrite_index i (m, rm) = Inl OutOfRange" for rm
    by (simp add: rewrite_index_def)
  from r show "rewrite_index i (m, pending) = Inl OutOfRange" .
  from r show "Run True (i # rest) m = Inl OutOfRange" by (simp add: Run_def)
  show "\<exists>e. Run True indices m = Inl e" if "i \<in> set indices"
    using rewrite_indices_out_of_range [OF b that, of "[]"] by (auto simp: Run_def)
qed

theorem soft_mismatch_skipped_witness:
  "rewrite_index 0 (scenario_A, []) = Inr (scenario_A, [])
   \<and> Run True [0, 2] scenario_A = Inr (True, scenario_A_rewritten)
   \<and> Run True [0] scenario_A = Inr (True, scenario_A)
   \<and> rewrite_index 5 (scenario_A, []) = Inl OutOfRange
   \<and> Run True [5, 2] scenario_A = Inl OutOfRange
   \<and> (\<exists>e. Run True [2, 5] scenario_A = Inl e)
   \<and> Run True [- 1] scenario_A = Inl OutOfRange"
proof -
  let ?rt = "new_instruction kTuple
               (TupleShape [ArrayShape F32 [4], ArrayShape F32 [4], ArrayShape F32 [4]])
               [4, 4, 3]"
  have 1: "mutable_operand_at scenario_A (root_instruction scenario_A) 0 = Inr 4"
    by (simp add: mutable_operand_at_def mutable_operand_def deref_def scenario_A_def
        new_instruction_def)
  have 2: "deref scenario_A 4 = Some (array_ins kParameter F32 [])"
    by (simp add: deref_def scenario_A_def)
  have 3: "opcode (array_ins kParameter F32 []) \<noteq> kAdd
         \<or> (\<exists>x. mutable_operand scenario_A 4 1 = Inr x
              \<and> (GetAllReduce scenario_A x = Some (Inr None)
                 \<or> (\<exists>ar. GetAllReduce scenario_A x = Some (Inr (Some ar))
                       \<and> length (users scenario_A ar) \<noteq> 1)))"
    by (simp add: array_ins_simps)
  have 4: "deref scenario_A (root_instruction scenario_A) = Some ?rt"
    by (simp add: deref_def scenario_A_def)
  have 5: "(5::int) < 0 \<or> int (length (operands ?rt)) \<le> 5"
    by (simp add: new_instruction_def)
  have 6: "(- 1::int) < 0 \<or> int (length (operands ?rt)) \<le> - 1" by simp
  have 7: "(5::int) \<in> set [2, 5]" by simp
  note a = soft_mismatch_skipped [where m = scenario_A and i = 0 and pending = "[]"
      and rest = "[2]", THEN conjunct1, rule_format, OF 1 2 3]
  note b = soft_mismatch_skipped [where m = scenario_A and i = 5 and pending = "[]"
      and rest = "[2]" and indices = "[2, 5]", THEN conjunct2, rule_format, OF 4 5]
  note c = soft_mismatch_skipped [where m = scenario_A and i = "- 1" and rest = "[]",
      THEN conjunct2, rule_format, OF 4 6]
  from a Run_scenario_A have A: "rewrite_index 0 (scenario_A, []) = Inr (scenario_A, [])"
    "Run True [0, 2] scenario_A = Inr (True, scenario_A_rewritten)"
    "Run True [0] scenario_A = Inr (True, scenario_A)"
    by simp_all
  from b have B: "rewrite_index 5 (scenario_A, []) = Inl OutOfRange"
    "Run True [5, 2] scenario_A = Inl OutOfRange"
    by simp_all
  from b 7 have C: "\<exists>e. Run True [2, 5] scenario_A = Inl e" by blast
  from c have D: "Run True [- 1] scenario_A = Inl OutOfRange" by simp
  from A B C D show ?thesis by simp
qed

end
